theory Spec2Isabelle
  imports Main "HOL-Library.Word" "HOL-Library.Monad_Syntax"
begin

unbundle bit_operations_syntax

section \<open>The data model of vsfsck.c\<close>

text \<open>
  The checker works on one fixed geometry: blocks of 4096 bytes, 64 blocks, 80 inodes of
  256 bytes, magic number 0xD34D. The C types \<open>uint8_t\<close>, \<open>uint16_t\<close> and
  \<open>uint32_t\<close> are words; \<open>int\<close> counters (\<open>errors_found\<close>, \<open>errors_fixed\<close>) are
  integers: one run adds at most a few ten thousand to them, far below \<open>2^31\<close>.
  C arrays are functions from the index; every access of the model stays inside the
  array's bounds, and an access the C code makes outside them is the result \<open>None\<close>.
\<close>

type_synonym u8 = "8 word"
type_synonym u16 = "16 word"
type_synonym u32 = "32 word"

abbreviation (input) BLOCK_SIZE :: "'a::numeral" where "BLOCK_SIZE \<equiv> 4096"
abbreviation (input) TOTAL_BLOCKS :: "'a::numeral" where "TOTAL_BLOCKS \<equiv> 64"
abbreviation (input) INODE_SIZE :: "'a::numeral" where "INODE_SIZE \<equiv> 256"
abbreviation (input) INODE_COUNT :: "'a::numeral" where "INODE_COUNT \<equiv> 80"
abbreviation (input) MAGIC_NUMBER :: "'a::numeral" where "MAGIC_NUMBER \<equiv> 0xD34D"

record superblock_t =
  magic :: u16
  block_size :: u32
  total_blocks :: u32
  inode_bitmap_block :: u32
  data_bitmap_block :: u32
  inode_table_start :: u32
  data_block_start :: u32
  inode_size :: u32
  inode_count :: u32
  sb_reserved :: "nat \<Rightarrow> u8"

record inode_t =
  mode :: u32
  uid :: u32
  gid :: u32
  fsize :: u32
  atime :: u32
  ctime :: u32
  mtime :: u32
  dtime :: u32
  nlink :: u32
  blocks :: u32
  direct_blocks :: "nat \<Rightarrow> u32"
  indirect_block :: u32
  double_indirect :: u32
  triple_indirect :: u32
  reserved :: "nat \<Rightarrow> u8"

text \<open>Every line the program prints, one constructor for each \<open>printf\<close> (and the \<open>perror\<close>).\<close>

datatype msg =
    Usage string
  | Open_error
  | Checking
  | Summary bool bool bool bool bool
  | Total_errors int
  | Attempting_fix
  | Errors_fixed int
  | Rechecking
  | Recheck_summary bool bool bool bool bool
  | Original_errors int
  | Remaining_errors int
  | All_fixed
  | Manual_needed
  | No_errors
  | Bad_magic u16
  | Bad_block_size u32
  | Bad_total_blocks u32
  | Bad_inode_bitmap_block u32
  | Bad_data_bitmap_block u32
  | Bad_inode_table_start u32
  | Bad_data_block_start u32
  | Bad_inode_size u32
  | Bad_inode_count u32
  | Inode_marked_not_valid nat
  | Inode_valid_not_marked nat
  | Block_marked_not_referenced nat
  | Block_referenced_not_marked nat int
  | Block_multiply_referenced nat "int list"
  | Bad_direct nat nat u32
  | Bad_indirect nat u32
  | Bad_indirect_entry nat nat u32

text \<open>Every \<open>fwrite\<close>, with the byte offset the preceding \<open>fseek\<close> went to.\<close>

datatype fwrite =
    W_superblock nat
  | W_inode_bitmap nat
  | W_data_bitmap nat
  | W_inode nat nat
  | W_indirect nat

text \<open>
  The image file is read block by block as 1024 \<open>uint32_t\<close> entries; a block that is not
  wholly inside the file is \<open>None\<close> (\<open>fread\<close> then leaves the buffer indeterminate).
  The state holds the globals of the program as they are after \<open>read_superblock\<close>,
  \<open>read_bitmaps\<close> and \<open>read_inodes\<close>, the lines printed so far and the writes made so far.
  The bytes that \<open>write_superblock\<close>, \<open>write_bitmaps\<close> and \<open>write_inodes\<close> store are
  recorded in \<open>writes\<close> only: they go to blocks below the data region once the
  superblock is repaired, and are not read back as block entries.
\<close>

type_synonym fs_block = "nat \<Rightarrow> u32"

record fsck_state =
  fs_image :: "nat \<Rightarrow> fs_block option"
  superblock :: superblock_t
  inode_bitmap :: "nat \<Rightarrow> u8"
  data_bitmap :: "nat \<Rightarrow> u8"
  inodes :: "nat \<Rightarrow> inode_t"
  block_referenced :: "nat \<Rightarrow> bool"
  block_referenced_by :: "nat \<Rightarrow> int"
  errors_found :: int
  errors_fixed :: int
  stdout :: "msg list"
  writes :: "fwrite list"

section \<open>Helpers: bitmaps, loops, reports\<close>

definition get_bit :: "(nat \<Rightarrow> u8) \<Rightarrow> nat \<Rightarrow> int" where
  "get_bit bitmap bit_index =
     (let byte_index = bit_index div 8; bit_offset = bit_index mod 8
      in uint (drop_bit bit_offset (bitmap byte_index) AND 1))"

definition set_bit :: "(nat \<Rightarrow> u8) \<Rightarrow> nat \<Rightarrow> (nat \<Rightarrow> u8)" where
  "set_bit bitmap bit_index =
     (let byte_index = bit_index div 8; bit_offset = bit_index mod 8
      in bitmap(byte_index := bitmap byte_index OR push_bit bit_offset 1))"

definition clear_bit :: "(nat \<Rightarrow> u8) \<Rightarrow> nat \<Rightarrow> (nat \<Rightarrow> u8)" where
  "clear_bit bitmap bit_index =
     (let byte_index = bit_index div 8; bit_offset = bit_index mod 8
      in bitmap(byte_index := bitmap byte_index AND NOT (push_bit bit_offset 1)))"

text \<open>A \<open>for\<close> loop whose body may hit undefined behaviour: the first \<open>None\<close> ends it.\<close>

primrec for_each :: "'a list \<Rightarrow> ('a \<Rightarrow> 's \<Rightarrow> 's option) \<Rightarrow> 's \<Rightarrow> 's option" where
  "for_each [] f s = Some s"
| "for_each (x # xs) f s = (case f x s of None \<Rightarrow> None | Some s' \<Rightarrow> for_each xs f s')"

text \<open>Statements run one after the other, in the order of the list.\<close>

definition run_steps :: "('s \<Rightarrow> 's) list \<Rightarrow> 's \<Rightarrow> 's" where
  "run_steps steps s = fold (\<lambda>step. step) steps s"

text \<open>
  Every finding of a validator is the same three statements: the \<open>printf\<close>, the local
  flag set to false, and \<open>errors_found++\<close>.
\<close>

definition report :: "msg \<Rightarrow> fsck_state \<Rightarrow> fsck_state" where
  "report m s = s\<lparr>stdout := stdout s @ [m], errors_found := errors_found s + 1\<rparr>"

definition flag_error :: "msg \<Rightarrow> bool \<times> fsck_state \<Rightarrow> bool \<times> fsck_state" where
  "flag_error m cs = (False, report m (snd cs))"

text \<open>
  \<open>fseek(fs_image, b * BLOCK_SIZE, SEEK_SET)\<close> followed by \<open>fread\<close> of one block: the
  product is computed in \<open>unsigned int\<close> and wraps modulo \<open>2^32\<close>.
\<close>

definition block_offset :: "u32 \<Rightarrow> nat" where
  "block_offset b = unat (b * BLOCK_SIZE)"

definition read_block :: "fsck_state \<Rightarrow> u32 \<Rightarrow> fs_block option" where
  "read_block s b = fs_image s (block_offset b div BLOCK_SIZE)"

section \<open>The validators\<close>

subsection \<open>check_superblock\<close>

definition check_field ::
  "(superblock_t \<Rightarrow> bool) \<Rightarrow> (superblock_t \<Rightarrow> msg) \<Rightarrow> bool \<times> fsck_state \<Rightarrow> bool \<times> fsck_state" where
  "check_field differs m cs =
     (if differs (superblock (snd cs)) then flag_error (m (superblock (snd cs))) cs else cs)"

definition check_superblock :: "fsck_state \<Rightarrow> bool \<times> fsck_state" where
  "check_superblock s =
     run_steps
       [check_field (\<lambda>sb. magic sb \<noteq> MAGIC_NUMBER) (\<lambda>sb. Bad_magic (magic sb)),
        check_field (\<lambda>sb. block_size sb \<noteq> BLOCK_SIZE) (\<lambda>sb. Bad_block_size (block_size sb)),
        check_field (\<lambda>sb. total_blocks sb \<noteq> TOTAL_BLOCKS) (\<lambda>sb. Bad_total_blocks (total_blocks sb)),
        check_field (\<lambda>sb. inode_bitmap_block sb \<noteq> 1)
          (\<lambda>sb. Bad_inode_bitmap_block (inode_bitmap_block sb)),
        check_field (\<lambda>sb. data_bitmap_block sb \<noteq> 2)
          (\<lambda>sb. Bad_data_bitmap_block (data_bitmap_block sb)),
        check_field (\<lambda>sb. inode_table_start sb \<noteq> 3)
          (\<lambda>sb. Bad_inode_table_start (inode_table_start sb)),
        check_field (\<lambda>sb. data_block_start sb \<noteq> 8)
          (\<lambda>sb. Bad_data_block_start (data_block_start sb)),
        check_field (\<lambda>sb. inode_size sb \<noteq> INODE_SIZE) (\<lambda>sb. Bad_inode_size (inode_size sb)),
        check_field (\<lambda>sb. inode_count sb \<noteq> INODE_COUNT \<and> inode_count sb \<noteq> 0)
          (\<lambda>sb. Bad_inode_count (inode_count sb))]
       (True, s)"

subsection \<open>is_valid_inode and check_inode_bitmap_consistency\<close>

definition is_valid_inode :: "fsck_state \<Rightarrow> nat \<Rightarrow> bool" where
  "is_valid_inode s inode_index \<longleftrightarrow>
     0 < nlink (inodes s inode_index) \<and> dtime (inodes s inode_index) = 0"

definition check_inode_slot :: "nat \<Rightarrow> bool \<times> fsck_state \<Rightarrow> bool \<times> fsck_state" where
  "check_inode_slot i cs =
     (let bit_value = get_bit (inode_bitmap (snd cs)) i;
          valid = is_valid_inode (snd cs) i
      in if bit_value \<noteq> 0 \<and> \<not> valid then flag_error (Inode_marked_not_valid i) cs
         else if bit_value = 0 \<and> valid then flag_error (Inode_valid_not_marked i) cs
         else cs)"

definition check_inode_bitmap_consistency :: "fsck_state \<Rightarrow> bool \<times> fsck_state" where
  "check_inode_bitmap_consistency s = fold check_inode_slot [0..<INODE_COUNT] (True, s)"

subsection \<open>mark_block_referenced and check_data_bitmap_consistency\<close>

text \<open>
  \<open>mark_block_referenced(int block_num, int inode_num)\<close> receives a \<open>uint32_t\<close> converted
  to \<open>int\<close>. Its first comparison is against the \<open>uint32_t\<close> field and so is unsigned; the
  second is against the \<open>int\<close> constant 64 and so is signed. A block number from \<open>2^31\<close>
  on that is not below the data-region start passes both and indexes
  \<open>block_referenced\<close> with a negative number.
\<close>

definition mark_block_referenced :: "u32 \<Rightarrow> nat \<Rightarrow> fsck_state \<Rightarrow> fsck_state option" where
  "mark_block_referenced block_num inode_num s =
     (if block_num < data_block_start (superblock s) \<or> TOTAL_BLOCKS \<le> sint block_num then Some s
      else if sint block_num < 0 then None
      else if block_referenced s (unat block_num) then Some s
      else Some (s\<lparr>block_referenced := (block_referenced s)(unat block_num := True),
                   block_referenced_by :=
                     (block_referenced_by s)(unat block_num := int inode_num)\<rparr>))"

definition mark_if_nonzero :: "nat \<Rightarrow> u32 \<Rightarrow> fsck_state \<Rightarrow> fsck_state option" where
  "mark_if_nonzero i block_num s =
     (if block_num \<noteq> 0 then mark_block_referenced block_num i s else Some s)"

definition mark_inode_blocks :: "nat \<Rightarrow> fsck_state \<Rightarrow> fsck_state option" where
  "mark_inode_blocks i s =
     (if is_valid_inode s i then do {
        s \<leftarrow> for_each [0..<12] (\<lambda>j s. mark_if_nonzero i (direct_blocks (inodes s i) j) s) s;
        if indirect_block (inodes s i) \<noteq> 0 then do {
          s \<leftarrow> mark_block_referenced (indirect_block (inodes s i)) i s;
          indirect_entries \<leftarrow> read_block s (indirect_block (inodes s i));
          for_each [0..<1024] (\<lambda>j s. mark_if_nonzero i (indirect_entries j) s) s
        } else Some s
      } else Some s)"

text \<open>
  \<open>for (int i = superblock.data_block_start; i < TOTAL_BLOCKS; i++)\<close>: the start is the
  field converted to \<open>int\<close>. A negative start enters the loop and indexes the arrays of
  64 entries with it.
\<close>

definition data_region :: "fsck_state \<Rightarrow> nat list option" where
  "data_region s =
     (let start = sint (data_block_start (superblock s))
      in if start < 0 then None else Some [nat start..<TOTAL_BLOCKS])"

definition check_data_block :: "nat \<Rightarrow> bool \<times> fsck_state \<Rightarrow> bool \<times> fsck_state" where
  "check_data_block i cs =
     (let s = snd cs;
          bit_value = get_bit (data_bitmap s) (i - nat (sint (data_block_start (superblock s))))
      in if bit_value \<noteq> 0 \<and> \<not> block_referenced s i
         then flag_error (Block_marked_not_referenced i) cs
         else if bit_value = 0 \<and> block_referenced s i
         then flag_error (Block_referenced_not_marked i (block_referenced_by s i)) cs
         else cs)"

definition reset_reference :: "nat \<Rightarrow> fsck_state \<Rightarrow> fsck_state" where
  "reset_reference i s =
     s\<lparr>block_referenced := (block_referenced s)(i := False),
       block_referenced_by := (block_referenced_by s)(i := - 1)\<rparr>"

definition check_data_bitmap_consistency :: "fsck_state \<Rightarrow> (bool \<times> fsck_state) option" where
  "check_data_bitmap_consistency s = do {
     let s = fold reset_reference [0..<TOTAL_BLOCKS] s;
     s \<leftarrow> for_each [0..<INODE_COUNT] mark_inode_blocks s;
     region \<leftarrow> data_region s;
     Some (fold check_data_block region (True, s))
   }"

subsection \<open>check_duplicate_blocks\<close>

text \<open>
  The two local arrays \<open>block_references[64][80]\<close> and \<open>reference_counts[64]\<close>. The first
  is not initialised in C; only entries below the count of their row are ever read. A
  row that already holds 80 entries cannot take another one.
\<close>

type_synonym references = "(nat \<Rightarrow> nat \<Rightarrow> int) \<times> (nat \<Rightarrow> nat)"

definition store_reference :: "nat \<Rightarrow> nat \<Rightarrow> references \<Rightarrow> references option" where
  "store_reference b i r =
     (let block_references = fst r; reference_counts = snd r
      in if reference_counts b < INODE_COUNT
         then Some (block_references(b := (block_references b)(reference_counts b := int i)),
                    reference_counts(b := reference_counts b + 1))
         else None)"

definition count_reference :: "nat \<Rightarrow> u32 \<Rightarrow> references \<Rightarrow> references option" where
  "count_reference i block_num r =
     (if block_num \<noteq> 0 \<and> block_num < TOTAL_BLOCKS then store_reference (unat block_num) i r
      else Some r)"

definition count_inode_references :: "fsck_state \<Rightarrow> nat \<Rightarrow> references \<Rightarrow> references option" where
  "count_inode_references s i r =
     (if is_valid_inode s i then do {
        r \<leftarrow> for_each [0..<12] (\<lambda>j. count_reference i (direct_blocks (inodes s i) j)) r;
        if indirect_block (inodes s i) \<noteq> 0 \<and> indirect_block (inodes s i) < TOTAL_BLOCKS then do {
          r \<leftarrow> store_reference (unat (indirect_block (inodes s i))) i r;
          indirect_entries \<leftarrow> read_block s (indirect_block (inodes s i));
          for_each [0..<1024] (\<lambda>j. count_reference i (indirect_entries j)) r
        } else Some r
      } else Some r)"

definition report_duplicate :: "references \<Rightarrow> nat \<Rightarrow> bool \<times> fsck_state \<Rightarrow> bool \<times> fsck_state" where
  "report_duplicate r i cs =
     (if 1 < snd r i
      then flag_error (Block_multiply_referenced i (map (fst r i) [0..<snd r i])) cs
      else cs)"

definition check_duplicate_blocks :: "fsck_state \<Rightarrow> (bool \<times> fsck_state) option" where
  "check_duplicate_blocks s = do {
     r \<leftarrow> for_each [0..<INODE_COUNT] (count_inode_references s) (\<lambda>_ _. 0, \<lambda>_. 0);
     region \<leftarrow> data_region s;
     Some (fold (report_duplicate r) region (True, s))
   }"

subsection \<open>check_bad_blocks\<close>

definition out_of_range :: "fsck_state \<Rightarrow> u32 \<Rightarrow> bool" where
  "out_of_range s block_num \<longleftrightarrow>
     block_num < data_block_start (superblock s) \<or> TOTAL_BLOCKS \<le> block_num"

definition check_direct :: "nat \<Rightarrow> nat \<Rightarrow> bool \<times> fsck_state \<Rightarrow> bool \<times> fsck_state" where
  "check_direct i j cs =
     (let block_num = direct_blocks (inodes (snd cs) i) j
      in if block_num \<noteq> 0 \<and> out_of_range (snd cs) block_num
         then flag_error (Bad_direct i j block_num) cs else cs)"

definition check_entry :: "nat \<Rightarrow> fs_block \<Rightarrow> nat \<Rightarrow> bool \<times> fsck_state \<Rightarrow> bool \<times> fsck_state" where
  "check_entry i indirect_entries j cs =
     (let block_num = indirect_entries j
      in if block_num \<noteq> 0 \<and> out_of_range (snd cs) block_num
         then flag_error (Bad_indirect_entry i j block_num) cs else cs)"

definition check_inode_blocks :: "nat \<Rightarrow> bool \<times> fsck_state \<Rightarrow> (bool \<times> fsck_state) option" where
  "check_inode_blocks i cs =
     (if is_valid_inode (snd cs) i then do {
        let cs = fold (check_direct i) [0..<12] cs;
        let indirect = indirect_block (inodes (snd cs) i);
        if indirect \<noteq> 0 then
          if out_of_range (snd cs) indirect then Some (flag_error (Bad_indirect i indirect) cs)
          else do {
            indirect_entries \<leftarrow> read_block (snd cs) indirect;
            Some (fold (check_entry i indirect_entries) [0..<1024] cs)
          }
        else Some cs
      } else Some cs)"

definition check_bad_blocks :: "fsck_state \<Rightarrow> (bool \<times> fsck_state) option" where
  "check_bad_blocks s = for_each [0..<INODE_COUNT] check_inode_blocks (True, s)"

section \<open>The repair: fix_errors\<close>

definition fix_field ::
  "(superblock_t \<Rightarrow> bool) \<Rightarrow> (superblock_t \<Rightarrow> superblock_t) \<Rightarrow> fsck_state \<Rightarrow> fsck_state" where
  "fix_field differs repair s =
     (if differs (superblock s)
      then s\<lparr>superblock := repair (superblock s), errors_fixed := errors_fixed s + 1\<rparr>
      else s)"

definition fix_superblock :: "fsck_state \<Rightarrow> fsck_state" where
  "fix_superblock s =
     run_steps
       [fix_field (\<lambda>sb. magic sb \<noteq> MAGIC_NUMBER) (\<lambda>sb. sb\<lparr>magic := MAGIC_NUMBER\<rparr>),
        fix_field (\<lambda>sb. block_size sb \<noteq> BLOCK_SIZE) (\<lambda>sb. sb\<lparr>block_size := BLOCK_SIZE\<rparr>),
        fix_field (\<lambda>sb. total_blocks sb \<noteq> TOTAL_BLOCKS) (\<lambda>sb. sb\<lparr>total_blocks := TOTAL_BLOCKS\<rparr>),
        fix_field (\<lambda>sb. inode_bitmap_block sb \<noteq> 1) (\<lambda>sb. sb\<lparr>inode_bitmap_block := 1\<rparr>),
        fix_field (\<lambda>sb. data_bitmap_block sb \<noteq> 2) (\<lambda>sb. sb\<lparr>data_bitmap_block := 2\<rparr>),
        fix_field (\<lambda>sb. inode_table_start sb \<noteq> 3) (\<lambda>sb. sb\<lparr>inode_table_start := 3\<rparr>),
        fix_field (\<lambda>sb. data_block_start sb \<noteq> 8) (\<lambda>sb. sb\<lparr>data_block_start := 8\<rparr>),
        fix_field (\<lambda>sb. inode_size sb \<noteq> INODE_SIZE) (\<lambda>sb. sb\<lparr>inode_size := INODE_SIZE\<rparr>),
        fix_field (\<lambda>sb. inode_count sb \<noteq> INODE_COUNT) (\<lambda>sb. sb\<lparr>inode_count := INODE_COUNT\<rparr>)]
       s"

definition fix_inode_bit :: "nat \<Rightarrow> fsck_state \<Rightarrow> fsck_state" where
  "fix_inode_bit i s =
     (let valid = is_valid_inode s i;
          bit_value = get_bit (inode_bitmap s) i
      in if bit_value \<noteq> 0 \<and> \<not> valid
         then s\<lparr>inode_bitmap := clear_bit (inode_bitmap s) i, errors_fixed := errors_fixed s + 1\<rparr>
         else if bit_value = 0 \<and> valid
         then s\<lparr>inode_bitmap := set_bit (inode_bitmap s) i, errors_fixed := errors_fixed s + 1\<rparr>
         else s)"

text \<open>The reference map read here is the one the last data-bitmap validation left.\<close>

definition fix_data_bit :: "nat \<Rightarrow> fsck_state \<Rightarrow> fsck_state" where
  "fix_data_bit i s =
     (let bit_index = i - nat (sint (data_block_start (superblock s)));
          bit_value = get_bit (data_bitmap s) bit_index
      in if bit_value \<noteq> 0 \<and> \<not> block_referenced s i
         then s\<lparr>data_bitmap := clear_bit (data_bitmap s) bit_index,
                errors_fixed := errors_fixed s + 1\<rparr>
         else if bit_value = 0 \<and> block_referenced s i
         then s\<lparr>data_bitmap := set_bit (data_bitmap s) bit_index,
                errors_fixed := errors_fixed s + 1\<rparr>
         else s)"

definition fix_direct :: "nat \<Rightarrow> nat \<Rightarrow> fsck_state \<Rightarrow> fsck_state" where
  "fix_direct i j s =
     (let block_num = direct_blocks (inodes s i) j
      in if block_num \<noteq> 0 \<and> out_of_range s block_num
         then s\<lparr>inodes := (inodes s)
                  (i := (inodes s i)\<lparr>direct_blocks := (direct_blocks (inodes s i))(j := 0)\<rparr>),
                errors_fixed := errors_fixed s + 1\<rparr>
         else s)"

text \<open>
  One entry of the local copy of an indirect block: the copy, the flag
  \<open>indirect_modified\<close> and the state go round the loop.
\<close>

definition fix_entry ::
  "nat \<Rightarrow> fs_block \<times> bool \<times> fsck_state \<Rightarrow> fs_block \<times> bool \<times> fsck_state" where
  "fix_entry j ems =
     (let indirect_entries = fst ems; s = snd (snd ems);
          block_num = indirect_entries j
      in if block_num \<noteq> 0 \<and> out_of_range s block_num
         then (indirect_entries(j := 0), True, s\<lparr>errors_fixed := errors_fixed s + 1\<rparr>)
         else ems)"

definition write_indirect :: "u32 \<Rightarrow> fs_block \<Rightarrow> fsck_state \<Rightarrow> fsck_state" where
  "write_indirect b indirect_entries s =
     s\<lparr>fs_image := (fs_image s)(block_offset b div BLOCK_SIZE := Some indirect_entries),
       writes := writes s @ [W_indirect (block_offset b)]\<rparr>"

definition fix_inode_blocks :: "nat \<Rightarrow> fsck_state \<Rightarrow> fsck_state option" where
  "fix_inode_blocks i s =
     (if is_valid_inode s i then do {
        let s = fold (fix_direct i) [0..<12] s;
        let indirect = indirect_block (inodes s i);
        if indirect \<noteq> 0 then
          if out_of_range s indirect
          then Some (s\<lparr>inodes := (inodes s)(i := (inodes s i)\<lparr>indirect_block := 0\<rparr>),
                       errors_fixed := errors_fixed s + 1\<rparr>)
          else do {
            indirect_entries \<leftarrow> read_block s indirect;
            let ems = fold fix_entry [0..<1024] (indirect_entries, False, s);
            Some (if fst (snd ems) then write_indirect indirect (fst ems) (snd (snd ems))
                  else snd (snd ems))
          }
        else Some s
      } else Some s)"

definition write_superblock :: "fsck_state \<Rightarrow> fsck_state" where
  "write_superblock s = s\<lparr>writes := writes s @ [W_superblock 0]\<rparr>"

definition write_bitmaps :: "fsck_state \<Rightarrow> fsck_state" where
  "write_bitmaps s =
     s\<lparr>writes := writes s @
        [W_inode_bitmap (block_offset (inode_bitmap_block (superblock s))),
         W_data_bitmap (block_offset (data_bitmap_block (superblock s)))]\<rparr>"

definition write_inode :: "nat \<Rightarrow> fsck_state \<Rightarrow> fsck_state" where
  "write_inode i s =
     s\<lparr>writes := writes s @
        [W_inode (unat (inode_table_start (superblock s) * BLOCK_SIZE + of_nat i * INODE_SIZE)) i]\<rparr>"

definition write_inodes :: "fsck_state \<Rightarrow> fsck_state" where
  "write_inodes s = fold write_inode [0..<INODE_COUNT] s"

definition fix_errors :: "fsck_state \<Rightarrow> fsck_state option" where
  "fix_errors s = do {
     let s = fix_superblock s;
     let s = fold fix_inode_bit [0..<INODE_COUNT] s;
     region \<leftarrow> data_region s;
     let s = fold fix_data_bit region s;
     s \<leftarrow> for_each [0..<INODE_COUNT] fix_inode_blocks s;
     Some (write_inodes (write_bitmaps (write_superblock s)))
   }"

section \<open>The driver: main\<close>

definition print :: "msg \<Rightarrow> fsck_state \<Rightarrow> fsck_state" where
  "print m s = s\<lparr>stdout := stdout s @ [m]\<rparr>"

text \<open>The five validators in the order \<open>main\<close> calls them, before and after the repair.\<close>

definition run_validators ::
  "fsck_state \<Rightarrow> ((bool \<times> bool \<times> bool \<times> bool \<times> bool) \<times> fsck_state) option" where
  "run_validators s = do {
     let (sb_consistent, s) = check_superblock s;
     let (inode_bitmap_consistent, s) = check_inode_bitmap_consistency s;
     (data_bitmap_consistent, s) \<leftarrow> check_data_bitmap_consistency s;
     (no_duplicate_blocks, s) \<leftarrow> check_duplicate_blocks s;
     (no_bad_blocks, s) \<leftarrow> check_bad_blocks s;
     Some ((sb_consistent, inode_bitmap_consistent, data_bitmap_consistent,
            no_duplicate_blocks, no_bad_blocks), s)
   }"

text \<open>
  \<open>main\<close> from the initialisation of the reference arrays to the last \<open>printf\<close>, on the
  globals as loaded.
\<close>

definition check_and_repair :: "fsck_state \<Rightarrow> fsck_state option" where
  "check_and_repair s = do {
     let s = fold reset_reference [0..<TOTAL_BLOCKS] s;
     let s = print Checking s;
     ((c1, c2, c3, c4, c5), s) \<leftarrow> run_validators s;
     let s = print (Summary c1 c2 c3 c4 c5) s;
     let s = print (Total_errors (errors_found s)) s;
     if 0 < errors_found s then do {
       let s = print Attempting_fix s;
       s \<leftarrow> fix_errors s;
       let s = print (Errors_fixed (errors_fixed s)) s;
       let original_errors = errors_found s;
       let s = s\<lparr>errors_found := 0, errors_fixed := 0\<rparr>;
       let s = print Rechecking s;
       ((c1, c2, c3, c4, c5), s) \<leftarrow> run_validators s;
       let s = print (Recheck_summary c1 c2 c3 c4 c5) s;
       let s = print (Original_errors original_errors) s;
       let s = print (Remaining_errors (errors_found s)) s;
       Some (if errors_found s = 0 then print All_fixed s else print Manual_needed s)
     } else Some (print No_errors s)
   }"

text \<open>
  The program is started as \<open>prog args\<close>, so \<open>argc\<close> is \<open>1 + length args\<close>. \<open>fopen\<close> gives,
  for a path that can be opened for reading and writing, the image and the structures
  the three read functions load from it; the counters start at 0 and nothing is printed
  or written yet. The result is the exit code with the lines printed and the writes made.
\<close>

definition main ::
  "string \<Rightarrow> string list \<Rightarrow> (string \<Rightarrow> fsck_state option) \<Rightarrow> (int \<times> msg list \<times> fwrite list) option" where
  "main prog args fopen =
     (if 1 + length args \<noteq> 2 then Some (1, [Usage prog], [])
      else case fopen (hd args) of
        None \<Rightarrow> Some (1, [Open_error], [])
      | Some loaded \<Rightarrow> do {
          s \<leftarrow> check_and_repair (loaded\<lparr>errors_found := 0, errors_fixed := 0, stdout := [], writes := []\<rparr>);
          Some (0, stdout s, writes s)
        })"

section \<open>What the validators are specified to report\<close>

text \<open>
  The definitions of this section follow the specification's words, not the code: the
  theorems below compare them with the functions above.
\<close>

text \<open>
  A validator that only reports: the findings are printed in order, each one counts as one
  error, and the flag stays true only if there is none.
\<close>

definition add_findings :: "msg list \<Rightarrow> bool \<times> fsck_state \<Rightarrow> bool \<times> fsck_state" where
  "add_findings ms cs =
     (fst cs \<and> ms = [],
      (snd cs)\<lparr>stdout := stdout (snd cs) @ ms,
               errors_found := errors_found (snd cs) + int (length ms)\<rparr>)"

text \<open>
  Superblock: each of the nine fields is compared with the one supported value; an inode
  count of 0 is tolerated.
\<close>

definition superblock_findings :: "superblock_t \<Rightarrow> msg list" where
  "superblock_findings sb =
     (if magic sb \<noteq> 0xD34D then [Bad_magic (magic sb)] else []) @
     (if block_size sb \<noteq> 4096 then [Bad_block_size (block_size sb)] else []) @
     (if total_blocks sb \<noteq> 64 then [Bad_total_blocks (total_blocks sb)] else []) @
     (if inode_bitmap_block sb \<noteq> 1 then [Bad_inode_bitmap_block (inode_bitmap_block sb)] else []) @
     (if data_bitmap_block sb \<noteq> 2 then [Bad_data_bitmap_block (data_bitmap_block sb)] else []) @
     (if inode_table_start sb \<noteq> 3 then [Bad_inode_table_start (inode_table_start sb)] else []) @
     (if data_block_start sb \<noteq> 8 then [Bad_data_block_start (data_block_start sb)] else []) @
     (if inode_size sb \<noteq> 256 then [Bad_inode_size (inode_size sb)] else []) @
     (if inode_count sb \<noteq> 80 \<and> inode_count sb \<noteq> 0 then [Bad_inode_count (inode_count sb)] else [])"

text \<open>
  Inode bitmap: an inode is in use iff its link count is positive and its deletion time is
  0; a slot whose bit disagrees with that gives one finding, of the kind that says which
  way round.
\<close>

definition slot_findings :: "fsck_state \<Rightarrow> nat \<Rightarrow> msg list" where
  "slot_findings s i =
     (let in_use = (0 < nlink (inodes s i) \<and> dtime (inodes s i) = 0);
          marked = bit (inode_bitmap s (i div 8)) (i mod 8)
      in if marked \<and> \<not> in_use then [Inode_marked_not_valid i]
         else if \<not> marked \<and> in_use then [Inode_valid_not_marked i]
         else [])"

definition disagrees :: "fsck_state \<Rightarrow> nat \<Rightarrow> bool" where
  "disagrees s i \<longleftrightarrow>
     bit (inode_bitmap s (i div 8)) (i mod 8) \<noteq> (0 < nlink (inodes s i) \<and> dtime (inodes s i) = 0)"

section \<open>Concrete images\<close>

text \<open>
  A consistent, empty file system of the supported geometry: 64 readable blocks of zeros,
  no inode in use, no bit set.
\<close>

definition clean_superblock :: superblock_t where
  "clean_superblock = \<lparr>magic = 0xD34D, block_size = 4096, total_blocks = 64,
     inode_bitmap_block = 1, data_bitmap_block = 2, inode_table_start = 3,
     data_block_start = 8, inode_size = 256, inode_count = 80, sb_reserved = (\<lambda>_. 0)\<rparr>"

definition free_inode :: inode_t where
  "free_inode = \<lparr>mode = 0, uid = 0, gid = 0, fsize = 0, atime = 0, ctime = 0, mtime = 0,
     dtime = 0, nlink = 0, blocks = 0, direct_blocks = (\<lambda>_. 0), indirect_block = 0,
     double_indirect = 0, triple_indirect = 0, reserved = (\<lambda>_. 0)\<rparr>"

definition clean_state :: fsck_state where
  "clean_state = \<lparr>fs_image = (\<lambda>b. if b < 64 then Some (\<lambda>_. 0) else None),
     superblock = clean_superblock, inode_bitmap = (\<lambda>_. 0), data_bitmap = (\<lambda>_. 0),
     inodes = (\<lambda>_. free_inode), block_referenced = (\<lambda>_. False),
     block_referenced_by = (\<lambda>_. - 1), errors_found = 0, errors_fixed = 0,
     stdout = [], writes = []\<rparr>"

section \<open>What the repair leaves\<close>

text \<open>
  The superblock after the repair has the supported value in each of the nine fields; the
  repair counts one fix for every field it had to change, the inode count 0 included.
\<close>

definition repaired_superblock :: "superblock_t \<Rightarrow> superblock_t" where
  "repaired_superblock sb =
     sb\<lparr>magic := 0xD34D, block_size := 4096, total_blocks := 64, inode_bitmap_block := 1,
        data_bitmap_block := 2, inode_table_start := 3, data_block_start := 8,
        inode_size := 256, inode_count := 80\<rparr>"

definition superblock_repairs :: "superblock_t \<Rightarrow> int" where
  "superblock_repairs sb =
     of_bool (magic sb \<noteq> 0xD34D) + of_bool (block_size sb \<noteq> 4096) +
     of_bool (total_blocks sb \<noteq> 64) + of_bool (inode_bitmap_block sb \<noteq> 1) +
     of_bool (data_bitmap_block sb \<noteq> 2) + of_bool (inode_table_start sb \<noteq> 3) +
     of_bool (data_block_start sb \<noteq> 8) + of_bool (inode_size sb \<noteq> 256) +
     of_bool (inode_count sb \<noteq> 80)"

text \<open>
  A pointer the repair zeroes: nonzero and outside the data region, which starts at
  \<open>start\<close> and ends before block 64.
\<close>

definition bad_pointer :: "u32 \<Rightarrow> u32 \<Rightarrow> bool" where
  "bad_pointer start v \<longleftrightarrow> v \<noteq> 0 \<and> (v < start \<or> 64 \<le> v)"

text \<open>
  An inode after the repair: when it is in use, its bad direct pointers and a bad indirect
  pointer are 0; an inode not in use is left as it is.
\<close>

definition repaired_inode :: "u32 \<Rightarrow> inode_t \<Rightarrow> inode_t" where
  "repaired_inode start ino =
     (if 0 < nlink ino \<and> dtime ino = 0
      then ino\<lparr>direct_blocks :=
                 (\<lambda>j. if j < 12 \<and> bad_pointer start (direct_blocks ino j) then 0
                      else direct_blocks ino j),
               indirect_block :=
                 (if bad_pointer start (indirect_block ino) then 0 else indirect_block ino)\<rparr>
      else ino)"

text \<open>
  The image after the repair differs from the image before only in entries of indirect
  blocks that were bad and are now 0.
\<close>

definition entry_repaired :: "u32 \<Rightarrow> u32 \<Rightarrow> u32 \<Rightarrow> bool" where
  "entry_repaired start v v' \<longleftrightarrow> v' = v \<or> (v' = 0 \<and> bad_pointer start v)"

definition image_repaired :: "u32 \<Rightarrow> (nat \<Rightarrow> fs_block option) \<Rightarrow> (nat \<Rightarrow> fs_block option) \<Rightarrow> bool" where
  "image_repaired start img img' \<longleftrightarrow>
     (\<forall>b. rel_option (\<lambda>blk blk'. \<forall>j. entry_repaired start (blk j) (blk' j)) (img b) (img' b))"

text \<open>All 64 blocks of the image are in the file, so that \<open>fread\<close> of any of them succeeds.\<close>

definition image_readable :: "fsck_state \<Rightarrow> bool" where
  "image_readable s \<longleftrightarrow> list_all (\<lambda>b. fs_image s b \<noteq> None) [0..<64]"

text \<open>
  The writes of indirect blocks, and the inodes whose indirect block has an entry to
  repair.
\<close>

definition is_indirect_write :: "fwrite \<Rightarrow> bool" where
  "is_indirect_write w \<longleftrightarrow> (case w of W_indirect _ \<Rightarrow> True | _ \<Rightarrow> False)"

definition indirect_needs_repair :: "u32 \<Rightarrow> fsck_state \<Rightarrow> nat \<Rightarrow> bool" where
  "indirect_needs_repair start s i \<longleftrightarrow>
     0 < nlink (inodes s i) \<and> dtime (inodes s i) = 0 \<and>
     indirect_block (inodes s i) \<noteq> 0 \<and> \<not> bad_pointer start (indirect_block (inodes s i)) \<and>
     (case fs_image s (unat (indirect_block (inodes s i))) of
        None \<Rightarrow> False
      | Some en \<Rightarrow> list_ex (\<lambda>j. bad_pointer start (en j)) [0..<1024])"

text \<open>
  Inode 0 is in use and its single-indirect pointer is block 9, whose first entry is the
  block number 100, outside the image.
\<close>

definition bad_entry_state :: fsck_state where
  "bad_entry_state =
     clean_state\<lparr>
       fs_image := (\<lambda>b. if b < 64
          then Some (if b = 9 then (\<lambda>j. if j = 0 then 100 else 0) else (\<lambda>_. 0)) else None),
       inodes := (\<lambda>_. free_inode)(0 := free_inode\<lparr>nlink := 1, indirect_block := 9\<rparr>),
       inode_bitmap := (\<lambda>_. 0)(0 := 1),
       data_bitmap := (\<lambda>_. 0)(0 := 2)\<rparr>"

text \<open>
  Bad blocks: for an inode in use, every nonzero direct pointer, the indirect pointer, and
  (when that one is in range) every nonzero entry of the indirect block must lie in the
  data region; each one that does not is a finding, keyed by inode and slot.
\<close>

definition direct_findings :: "fsck_state \<Rightarrow> nat \<Rightarrow> nat \<Rightarrow> msg list" where
  "direct_findings s i j =
     (if bad_pointer (data_block_start (superblock s)) (direct_blocks (inodes s i) j)
      then [Bad_direct i j (direct_blocks (inodes s i) j)] else [])"

definition entry_findings :: "fsck_state \<Rightarrow> nat \<Rightarrow> fs_block \<Rightarrow> nat \<Rightarrow> msg list" where
  "entry_findings s i en j =
     (if bad_pointer (data_block_start (superblock s)) (en j)
      then [Bad_indirect_entry i j (en j)] else [])"

definition indirect_findings :: "fsck_state \<Rightarrow> nat \<Rightarrow> msg list" where
  "indirect_findings s i =
     (let ind = indirect_block (inodes s i)
      in if ind = 0 then []
         else if bad_pointer (data_block_start (superblock s)) ind then [Bad_indirect i ind]
         else case fs_image s (unat ind) of
                None \<Rightarrow> []
              | Some en \<Rightarrow> concat (map (entry_findings s i en) [0..<1024]))"

definition bad_block_findings :: "fsck_state \<Rightarrow> nat \<Rightarrow> msg list" where
  "bad_block_findings s i =
     (if 0 < nlink (inodes s i) \<and> dtime (inodes s i) = 0
      then concat (map (direct_findings s i) [0..<12]) @ indirect_findings s i
      else [])"

text \<open>Inode 0 is in use and its first direct pointer is 64; bit 56 of the data bitmap is set.\<close>

definition past_end_state :: fsck_state where
  "past_end_state =
     clean_state\<lparr>
       inodes := (\<lambda>_. free_inode)(0 := free_inode\<lparr>nlink := 1, direct_blocks := (\<lambda>_. 0)(0 := 64)\<rparr>),
       inode_bitmap := (\<lambda>_. 0)(0 := 1),
       data_bitmap := (\<lambda>_. 0)(7 := 1)\<rparr>"

text \<open>
  The reference tracker: a nonzero pointer counts when it lies in the data region as the
  superblock gives it; the first inode that claims a block is the one recorded for it.
  A pointer from \<open>2^31\<close> on that is not below the region start is the one that sends
  \<open>mark_block_referenced\<close> outside its arrays.
\<close>

definition tracked :: "u32 \<Rightarrow> u32 \<Rightarrow> bool" where
  "tracked start v \<longleftrightarrow> v \<noteq> 0 \<and> start \<le> v \<and> v < 64"

definition wild :: "u32 \<Rightarrow> u32 \<Rightarrow> bool" where
  "wild start v \<longleftrightarrow> v \<noteq> 0 \<and> start \<le> v \<and> sint v < 0"

type_synonym reference_map = "(nat \<Rightarrow> bool) \<times> (nat \<Rightarrow> int)"

definition track :: "u32 \<Rightarrow> nat \<times> u32 \<Rightarrow> reference_map \<Rightarrow> reference_map" where
  "track start c r =
     (if tracked start (snd c) \<and> \<not> fst r (unat (snd c))
      then ((fst r)(unat (snd c) := True), (snd r)(unat (snd c) := int (fst c)))
      else r)"

text \<open>
  The pointers the tracker looks at for one inode, in the order of the walk: the 12 direct
  pointers, then the indirect pointer and the 1024 entries of the block it names, read
  wherever that pointer leads. \<open>None\<close> when the block cannot be read.
\<close>

definition tracker_pointers :: "fsck_state \<Rightarrow> nat \<Rightarrow> u32 list option" where
  "tracker_pointers s i =
     (if 0 < nlink (inodes s i) \<and> dtime (inodes s i) = 0
      then if indirect_block (inodes s i) = 0
           then Some (map (direct_blocks (inodes s i)) [0..<12])
           else case read_block s (indirect_block (inodes s i)) of
                  None \<Rightarrow> None
                | Some en \<Rightarrow> Some (map (direct_blocks (inodes s i)) [0..<12] @
                              indirect_block (inodes s i) # map en [0..<1024])
      else Some [])"

primrec tracker_claims :: "fsck_state \<Rightarrow> nat list \<Rightarrow> (nat \<times> u32) list option" where
  "tracker_claims s [] = Some []"
| "tracker_claims s (i # is) =
     (case tracker_pointers s i of
        None \<Rightarrow> None
      | Some vs \<Rightarrow> map_option (\<lambda>cl. map (Pair i) vs @ cl) (tracker_claims s is))"

text \<open>
  The reference map a validation pass leaves: both arrays reset, then every claim of the
  walk recorded in order.
\<close>

definition tracked_state :: "fsck_state \<Rightarrow> (nat \<times> u32) list \<Rightarrow> fsck_state" where
  "tracked_state s cl =
     (let r = fold (track (data_block_start (superblock s))) cl
                ((\<lambda>b. if b < 64 then False else block_referenced s b),
                 (\<lambda>b. if b < 64 then - 1 else block_referenced_by s b))
      in s\<lparr>block_referenced := fst r, block_referenced_by := snd r\<rparr>)"

text \<open>
  Data bitmap: a block of the data region whose bit disagrees with the reference map gives
  one finding; the bit of block \<open>i\<close> has the index \<open>i\<close> minus the region start.
\<close>

definition data_block_findings :: "fsck_state \<Rightarrow> nat \<Rightarrow> msg list" where
  "data_block_findings s i =
     (let k = i - nat (sint (data_block_start (superblock s)));
          marked = bit (data_bitmap s (k div 8)) (k mod 8)
      in if marked \<and> \<not> block_referenced s i then [Block_marked_not_referenced i]
         else if \<not> marked \<and> block_referenced s i
         then [Block_referenced_not_marked i (block_referenced_by s i)]
         else [])"

text \<open>
  Duplicate blocks: the walk records one reference for every nonzero pointer below 64: the
  direct pointers of an inode in use, its indirect pointer, and the entries of the
  indirect block when that pointer is nonzero and below 64. A block of the data region
  with more than one reference is reported with the inode of every reference, in the
  order of the walk.
\<close>

definition counted :: "u32 \<Rightarrow> bool" where
  "counted v \<longleftrightarrow> v \<noteq> 0 \<and> v < 64"

definition duplicate_pointers :: "fsck_state \<Rightarrow> nat \<Rightarrow> u32 list option" where
  "duplicate_pointers s i =
     (if 0 < nlink (inodes s i) \<and> dtime (inodes s i) = 0
      then if counted (indirect_block (inodes s i))
           then case read_block s (indirect_block (inodes s i)) of
                  None \<Rightarrow> None
                | Some en \<Rightarrow> Some (map (direct_blocks (inodes s i)) [0..<12] @
                              indirect_block (inodes s i) # map en [0..<1024])
           else Some (map (direct_blocks (inodes s i)) [0..<12])
      else Some [])"

primrec duplicate_claims :: "fsck_state \<Rightarrow> nat list \<Rightarrow> (nat \<times> u32) list option" where
  "duplicate_claims s [] = Some []"
| "duplicate_claims s (i # is) =
     (case duplicate_pointers s i of
        None \<Rightarrow> None
      | Some vs \<Rightarrow> map_option (\<lambda>cl. map (Pair i) vs @ cl) (duplicate_claims s is))"

definition claimants :: "(nat \<times> u32) list \<Rightarrow> nat \<Rightarrow> int list" where
  "claimants cl b = map (\<lambda>c. int (fst c)) (filter (\<lambda>c. counted (snd c) \<and> unat (snd c) = b) cl)"

definition duplicate_findings :: "(nat \<times> u32) list \<Rightarrow> nat \<Rightarrow> msg list" where
  "duplicate_findings cl b =
     (if 1 < length (claimants cl b) then [Block_multiply_referenced b (claimants cl b)] else [])"

text \<open>What the two local arrays hold: for every block the list of the references stored.\<close>

definition stored :: "references \<Rightarrow> nat \<Rightarrow> int list" where
  "stored r b = map (fst r b) [0..<snd r b]"

text \<open>Inode 0 is in use and names block 9 in its first two direct pointers.\<close>

definition double_reference_state :: fsck_state where
  "double_reference_state =
     clean_state\<lparr>
       inodes := (\<lambda>_. free_inode)
         (0 := free_inode\<lparr>nlink := 1, direct_blocks := (\<lambda>_. 0)(0 := 9, 1 := 9)\<rparr>),
       inode_bitmap := (\<lambda>_. 0)(0 := 1),
       data_bitmap := (\<lambda>_. 0)(0 := 2)\<rparr>"

text \<open>
  Two states with the same image and the same loaded structures: they may differ in the
  reference arrays, the counters, the output and the record of the writes.
\<close>

definition same_disk :: "fsck_state \<Rightarrow> fsck_state \<Rightarrow> bool" where
  "same_disk s t \<longleftrightarrow>
     fs_image t = fs_image s \<and> superblock t = superblock s \<and>
     inode_bitmap t = inode_bitmap s \<and> data_bitmap t = data_bitmap s \<and> inodes t = inodes s"

text \<open>The empty file system with two superblock fields zeroed: the magic number and the inode count.\<close>

definition zero_count_state :: fsck_state where
  "zero_count_state = clean_state\<lparr>superblock := clean_superblock\<lparr>magic := 0, inode_count := 0\<rparr>\<rparr>"

text \<open>Inode 0 is in use and owns block 8, its first direct block; no other inode is in use.\<close>

definition owner_inodes :: "nat \<Rightarrow> inode_t" where
  "owner_inodes = (\<lambda>_. free_inode)(0 := free_inode\<lparr>nlink := 1, direct_blocks := (\<lambda>_. 0)(0 := 8)\<rparr>)"

text \<open>
  A file system that is consistent, block 8 marked in the data bitmap, except that the
  superblock gives 10 as the start of the data region.
\<close>

definition shifted_start_state :: fsck_state where
  "shifted_start_state =
     clean_state\<lparr>
       superblock := clean_superblock\<lparr>data_block_start := 10\<rparr>,
       inodes := owner_inodes,
       inode_bitmap := (\<lambda>_. 0)(0 := 1),
       data_bitmap := (\<lambda>_. 0)(0 := 1)\<rparr>"

text \<open>
  What the validators print on such an image, where the superblock gives 10 (\<open>shifted\<close>) or 8
  as the start of the data region and bit 0 of the data bitmap is set (\<open>marked\<close>) or clear.
\<close>

definition owner_findings :: "bool \<Rightarrow> bool \<Rightarrow> msg list" where
  "owner_findings shifted marked =
     (if shifted
      then Bad_data_block_start 10 #
           (if marked then [Block_marked_not_referenced 10] else []) @ [Bad_direct 0 0 8]
      else if marked then [] else [Block_referenced_not_marked 8 0])"

text \<open>
  An inode in use whose single-indirect pointer is nonzero and below block 8: the duplicate
  walk reads the block it names, and the repair zeroes the pointer.
\<close>

definition low_indirect :: "fsck_state \<Rightarrow> nat \<Rightarrow> bool" where
  "low_indirect s k \<longleftrightarrow>
     0 < nlink (inodes s k) \<and> dtime (inodes s k) = 0 \<and>
     indirect_block (inodes s k) \<noteq> 0 \<and> indirect_block (inodes s k) < 8"

definition no_low_indirect :: "fsck_state \<Rightarrow> bool" where
  "no_low_indirect s \<longleftrightarrow> list_all (\<lambda>k. \<not> low_indirect s k) [0..<80]"

text \<open>Inodes 0 and 1 are in use and both name block \<open>B\<close> as their first direct block.\<close>

definition shared_inodes :: "u32 \<Rightarrow> nat \<Rightarrow> inode_t" where
  "shared_inodes B =
     (\<lambda>_. free_inode)
       (0 := free_inode\<lparr>nlink := 1, direct_blocks := (\<lambda>_. 0)(0 := B)\<rparr>,
        1 := free_inode\<lparr>nlink := 1, direct_blocks := (\<lambda>_. 0)(0 := B)\<rparr>)"

text \<open>
  An image with these inodes, both marked in the inode bitmap, the bit of block \<open>B\<close> set in
  the data bitmap, and \<open>start\<close> as the start of the data region in the superblock.
\<close>

definition shared_block_state :: "u32 \<Rightarrow> u32 \<Rightarrow> fsck_state" where
  "shared_block_state start B =
     clean_state\<lparr>
       superblock := clean_superblock\<lparr>data_block_start := start\<rparr>,
       inodes := shared_inodes B,
       inode_bitmap := (\<lambda>_. 0)(0 := 3),
       data_bitmap := (\<lambda>_. 0)(0 := push_bit (unat B - 8) 1)\<rparr>"

text \<open>
  The empty file system of the supported geometry with one file: inode 0 is in use and
  marked, and its first direct pointer holds \<open>0x80000000\<close>, which is \<open>INT_MIN\<close> as an \<open>int\<close>.
\<close>

definition wild_pointer_state :: fsck_state where
  "wild_pointer_state =
     clean_state\<lparr>
       inodes := (\<lambda>_. free_inode)
         (0 := free_inode\<lparr>nlink := 1, direct_blocks := (\<lambda>_. 0)(0 := 0x80000000)\<rparr>),
       inode_bitmap := (\<lambda>_. 0)(0 := 1)\<rparr>"

text \<open>
  An image of the supported geometry. Inodes 0 and 1 are in use and both name block 9 as
  their first direct block. Inode 2 is in use and has 7 as its single-indirect pointer, a
  block of the inode table: block 7 holds the records of inodes 64 to 79, and entry 10 of
  that block is the first direct pointer of inode 64, which is not in use and still holds
  9. The three inodes are marked in the inode bitmap and block 9 in the data bitmap.
\<close>

definition stale_claim_state :: fsck_state where
  "stale_claim_state =
     clean_state\<lparr>
       fs_image := (\<lambda>b. if b < 64
          then Some (if b = 7 then (\<lambda>e. if e = 10 then 9 else 0) else (\<lambda>_. 0)) else None),
       inodes := (shared_inodes 9)
         (2 := free_inode\<lparr>nlink := 1, indirect_block := 7\<rparr>,
          64 := free_inode\<lparr>direct_blocks := (\<lambda>_. 0)(0 := 9)\<rparr>),
       inode_bitmap := (\<lambda>_. 0)(0 := 7),
       data_bitmap := (\<lambda>_. 0)(0 := 2)\<rparr>"

section \<open>Lemmas: bitmaps\<close>

lemma get_bit_eq: "get_bit bitmap i = of_bool (bit (bitmap (i div 8)) (i mod 8))"
  by (simp add: get_bit_def Let_def and_one_eq mod_2_eq_odd bit_iff_odd_drop_bit)

lemma get_bit_set_bit:
  "get_bit (set_bit bitmap i) j = (if i = j then 1 else get_bit bitmap j)"
proof -
  have "i = j \<longleftrightarrow> i div 8 = j div 8 \<and> i mod 8 = j mod 8"
    by (metis div_mult_mod_eq)
  then show ?thesis
    by (auto simp add: get_bit_eq set_bit_def Let_def bit_simps)
qed

lemma get_bit_clear_bit:
  "get_bit (clear_bit bitmap i) j = (if i = j then 0 else get_bit bitmap j)"
proof -
  have "i = j \<longleftrightarrow> i div 8 = j div 8 \<and> i mod 8 = j mod 8"
    by (metis div_mult_mod_eq)
  then show ?thesis
    by (auto simp add: get_bit_eq clear_bit_def Let_def bit_simps)
qed

lemma add_findings_Nil [simp]: "add_findings [] cs = cs"
  by (simp add: add_findings_def)

lemma add_findings_twice [simp]:
  "add_findings ms (add_findings ms' cs) = add_findings (ms' @ ms) cs"
  by (simp add: add_findings_def)

lemma flag_error_add: "flag_error m cs = add_findings [m] cs"
  by (simp add: flag_error_def report_def add_findings_def)

lemma add_findings_frame [simp]:
  "fs_image (snd (add_findings ms cs)) = fs_image (snd cs)"
  "superblock (snd (add_findings ms cs)) = superblock (snd cs)"
  "inode_bitmap (snd (add_findings ms cs)) = inode_bitmap (snd cs)"
  "data_bitmap (snd (add_findings ms cs)) = data_bitmap (snd cs)"
  "inodes (snd (add_findings ms cs)) = inodes (snd cs)"
  "block_referenced (snd (add_findings ms cs)) = block_referenced (snd cs)"
  "block_referenced_by (snd (add_findings ms cs)) = block_referenced_by (snd cs)"
  "errors_fixed (snd (add_findings ms cs)) = errors_fixed (snd cs)"
  "writes (snd (add_findings ms cs)) = writes (snd cs)"
  by (simp_all add: add_findings_def)

lemma add_findings_result [simp]:
  "fst (add_findings ms cs) \<longleftrightarrow> fst cs \<and> ms = []"
  "stdout (snd (add_findings ms cs)) = stdout (snd cs) @ ms"
  "errors_found (snd (add_findings ms cs)) = errors_found (snd cs) + int (length ms)"
  by (simp_all add: add_findings_def)

lemma fold_add_findings:
  assumes step: "\<And>x cs. x \<in> set xs \<Longrightarrow> f x cs = add_findings (g (snd cs) x) cs"
    and frame: "\<And>ms cs x. g (snd (add_findings ms cs)) x = g (snd cs) x"
  shows "fold f xs cs = add_findings (concat (map (g (snd cs)) xs)) cs"
  using step
proof (induction xs arbitrary: cs)
  case Nil
  show ?case by simp
next
  case (Cons x xs)
  have "fold f (x # xs) cs = fold f xs (add_findings (g (snd cs) x) cs)"
    by (simp add: Cons.prems)
  also have "\<dots> = add_findings (concat (map (g (snd cs)) xs)) (add_findings (g (snd cs) x) cs)"
    using Cons.IH [of "add_findings (g (snd cs) x) cs"] Cons.prems by (simp add: frame)
  finally show ?case by simp
qed

lemma check_field_add:
  "check_field differs m cs =
     add_findings (if differs (superblock (snd cs)) then [m (superblock (snd cs))] else []) cs"
  by (simp add: check_field_def flag_error_add)

lemma check_superblock_add:
  "check_superblock s = add_findings (superblock_findings (superblock s)) (True, s)"
  unfolding check_superblock_def run_steps_def superblock_findings_def
  by (simp only: fold_simps o_apply id_apply check_field_add add_findings_twice add_findings_frame
      snd_conv append_assoc)

lemma check_inode_slot_add: "check_inode_slot i cs = add_findings (slot_findings (snd cs) i) cs"
  by (auto simp add: check_inode_slot_def slot_findings_def Let_def flag_error_add get_bit_eq
      is_valid_inode_def)

lemma check_inode_bitmap_add:
  "check_inode_bitmap_consistency s =
     add_findings (concat (map (slot_findings s) [0..<80])) (True, s)"
  unfolding check_inode_bitmap_consistency_def
  by (subst fold_add_findings [where g = slot_findings])
     (simp_all add: check_inode_slot_add slot_findings_def)

lemma length_findings_filter:
  assumes "\<And>x. x \<in> set xs \<Longrightarrow> length (g x) = (if P x then 1 else 0)"
  shows "length (concat (map g xs)) = length (filter P xs)"
  using assms by (induction xs) auto

lemma length_slot_findings: "length (slot_findings s i) = (if disagrees s i then 1 else 0)"
  by (auto simp add: slot_findings_def disagrees_def Let_def)

lemma length_if_finding: "int (length (if c then [m] else [])) = of_bool c"
  by simp

lemma in_set_if_finding: "x \<in> set (if c then [m] else []) \<longleftrightarrow> c \<and> x = m"
  by auto


section \<open>Lemmas: the repair\<close>

lemma fold_inv:
  assumes "P s" and "\<And>x t. x \<in> set xs \<Longrightarrow> P t \<Longrightarrow> P (f x t)"
  shows "P (fold f xs s)"
  using assms by (induction xs arbitrary: s) auto

lemma for_each_inv:
  assumes "for_each xs f s = Some s'" and "P s"
    and "\<And>x t t'. x \<in> set xs \<Longrightarrow> P t \<Longrightarrow> f x t = Some t' \<Longrightarrow> P t'"
  shows "P s'"
  using assms
proof (induction xs arbitrary: s)
  case Nil
  then show ?case by simp
next
  case (Cons x xs)
  from Cons.prems(1) obtain t where t: "f x s = Some t" and rest: "for_each xs f t = Some s'"
    by (auto split: option.splits)
  have "P t" using Cons.prems(2,3) t by auto
  with rest show ?case using Cons.IH Cons.prems(3) by auto
qed

lemma for_each_defined:
  assumes "P s" and "\<And>x t. x \<in> set xs \<Longrightarrow> P t \<Longrightarrow> \<exists>t'. f x t = Some t' \<and> P t'"
  shows "\<exists>s'. for_each xs f s = Some s' \<and> P s'"
  using assms
proof (induction xs arbitrary: s)
  case Nil
  then show ?case by simp
next
  case (Cons x xs)
  from Cons.prems obtain t where t: "f x s = Some t" "P t" by fastforce
  with Cons.IH [of t] Cons.prems(2) show ?case by auto
qed

lemma fix_field_instances:
  "fix_field (\<lambda>sb. magic sb \<noteq> v1) (\<lambda>sb. sb\<lparr>magic := v1\<rparr>) s =
     s\<lparr>superblock := (superblock s)\<lparr>magic := v1\<rparr>,
       errors_fixed := errors_fixed s + of_bool (magic (superblock s) \<noteq> v1)\<rparr>"
  "fix_field (\<lambda>sb. block_size sb \<noteq> v) (\<lambda>sb. sb\<lparr>block_size := v\<rparr>) s =
     s\<lparr>superblock := (superblock s)\<lparr>block_size := v\<rparr>,
       errors_fixed := errors_fixed s + of_bool (block_size (superblock s) \<noteq> v)\<rparr>"
  "fix_field (\<lambda>sb. total_blocks sb \<noteq> v) (\<lambda>sb. sb\<lparr>total_blocks := v\<rparr>) s =
     s\<lparr>superblock := (superblock s)\<lparr>total_blocks := v\<rparr>,
       errors_fixed := errors_fixed s + of_bool (total_blocks (superblock s) \<noteq> v)\<rparr>"
  "fix_field (\<lambda>sb. inode_bitmap_block sb \<noteq> v) (\<lambda>sb. sb\<lparr>inode_bitmap_block := v\<rparr>) s =
     s\<lparr>superblock := (superblock s)\<lparr>inode_bitmap_block := v\<rparr>,
       errors_fixed := errors_fixed s + of_bool (inode_bitmap_block (superblock s) \<noteq> v)\<rparr>"
  "fix_field (\<lambda>sb. data_bitmap_block sb \<noteq> v) (\<lambda>sb. sb\<lparr>data_bitmap_block := v\<rparr>) s =
     s\<lparr>superblock := (superblock s)\<lparr>data_bitmap_block := v\<rparr>,
       errors_fixed := errors_fixed s + of_bool (data_bitmap_block (superblock s) \<noteq> v)\<rparr>"
  "fix_field (\<lambda>sb. inode_table_start sb \<noteq> v) (\<lambda>sb. sb\<lparr>inode_table_start := v\<rparr>) s =
     s\<lparr>superblock := (superblock s)\<lparr>inode_table_start := v\<rparr>,
       errors_fixed := errors_fixed s + of_bool (inode_table_start (superblock s) \<noteq> v)\<rparr>"
  "fix_field (\<lambda>sb. data_block_start sb \<noteq> v) (\<lambda>sb. sb\<lparr>data_block_start := v\<rparr>) s =
     s\<lparr>superblock := (superblock s)\<lparr>data_block_start := v\<rparr>,
       errors_fixed := errors_fixed s + of_bool (data_block_start (superblock s) \<noteq> v)\<rparr>"
  "fix_field (\<lambda>sb. inode_size sb \<noteq> v) (\<lambda>sb. sb\<lparr>inode_size := v\<rparr>) s =
     s\<lparr>superblock := (superblock s)\<lparr>inode_size := v\<rparr>,
       errors_fixed := errors_fixed s + of_bool (inode_size (superblock s) \<noteq> v)\<rparr>"
  "fix_field (\<lambda>sb. inode_count sb \<noteq> v) (\<lambda>sb. sb\<lparr>inode_count := v\<rparr>) s =
     s\<lparr>superblock := (superblock s)\<lparr>inode_count := v\<rparr>,
       errors_fixed := errors_fixed s + of_bool (inode_count (superblock s) \<noteq> v)\<rparr>"
  by (simp_all add: fix_field_def)

lemma fix_superblock_eq:
  "fix_superblock s =
     s\<lparr>superblock := repaired_superblock (superblock s),
       errors_fixed := errors_fixed s + superblock_repairs (superblock s)\<rparr>"
  by (simp add: fix_superblock_def run_steps_def fix_field_instances repaired_superblock_def
      superblock_repairs_def)

lemma fix_inode_bit_eq:
  "\<exists>bm e. fix_inode_bit i s = s\<lparr>inode_bitmap := bm, errors_fixed := e\<rparr> \<and> errors_fixed s \<le> e"
proof -
  consider (clear) "get_bit (inode_bitmap s) i \<noteq> 0 \<and> \<not> is_valid_inode s i"
    | (set) "\<not> (get_bit (inode_bitmap s) i \<noteq> 0 \<and> \<not> is_valid_inode s i)"
        "get_bit (inode_bitmap s) i = 0 \<and> is_valid_inode s i"
    | (keep) "\<not> (get_bit (inode_bitmap s) i \<noteq> 0 \<and> \<not> is_valid_inode s i)"
        "\<not> (get_bit (inode_bitmap s) i = 0 \<and> is_valid_inode s i)"
    by blast
  then show ?thesis
  proof cases
    case clear
    then show ?thesis
      by (intro exI [of _ "clear_bit (inode_bitmap s) i"] exI [of _ "errors_fixed s + 1"])
         (simp add: fix_inode_bit_def)
  next
    case set
    then show ?thesis
      by (intro exI [of _ "set_bit (inode_bitmap s) i"] exI [of _ "errors_fixed s + 1"])
         (simp add: fix_inode_bit_def)
  next
    case keep
    then show ?thesis
      by (intro exI [of _ "inode_bitmap s"] exI [of _ "errors_fixed s"])
         (auto simp add: fix_inode_bit_def Let_def)
  qed
qed

lemma fold_fix_inode_bit:
  "\<exists>bm e. fold fix_inode_bit xs s = s\<lparr>inode_bitmap := bm, errors_fixed := e\<rparr> \<and> errors_fixed s \<le> e"
proof (induction xs arbitrary: s)
  case Nil
  show ?case
    by (intro exI [of _ "inode_bitmap s"] exI [of _ "errors_fixed s"]) simp
next
  case (Cons x xs)
  obtain bm e where 1: "fix_inode_bit x s = s\<lparr>inode_bitmap := bm, errors_fixed := e\<rparr>"
    and 2: "errors_fixed s \<le> e"
    using fix_inode_bit_eq by blast
  obtain bm' e' where 3: "fold fix_inode_bit xs (s\<lparr>inode_bitmap := bm, errors_fixed := e\<rparr>) =
      s\<lparr>inode_bitmap := bm, errors_fixed := e\<rparr>\<lparr>inode_bitmap := bm', errors_fixed := e'\<rparr>"
    and 4: "errors_fixed (s\<lparr>inode_bitmap := bm, errors_fixed := e\<rparr>) \<le> e'"
    using Cons.IH by blast
  have "fold fix_inode_bit (x # xs) s = s\<lparr>inode_bitmap := bm', errors_fixed := e'\<rparr>"
    using 1 3 by simp
  moreover have "errors_fixed s \<le> e'" using 2 4 by simp
  ultimately show ?case by blast
qed

lemma get_bit_cases: "get_bit bm k = 0 \<or> get_bit bm k = 1"
  by (simp add: get_bit_eq)

lemma fix_data_bit_eq:
  assumes "data_block_start (superblock s) = 8" and "8 \<le> x"
  shows "\<exists>bm e. fix_data_bit x s = s\<lparr>data_bitmap := bm, errors_fixed := e\<rparr> \<and>
           errors_fixed s \<le> e \<and>
           (\<forall>k. get_bit bm k =
              (if k + 8 = x then of_bool (block_referenced s x) else get_bit (data_bitmap s) k))"
proof -
  have idx: "k + 8 = x \<longleftrightarrow> x - 8 = k" for k using assms(2) by auto
  have start: "nat (sint (data_block_start (superblock s))) = 8" using assms(1) by simp
  consider (clear) "get_bit (data_bitmap s) (x - 8) \<noteq> 0" "\<not> block_referenced s x"
    | (set) "get_bit (data_bitmap s) (x - 8) = 0" "block_referenced s x"
    | (keep) "get_bit (data_bitmap s) (x - 8) = of_bool (block_referenced s x)"
    using get_bit_cases [of "data_bitmap s" "x - 8"] by (cases "block_referenced s x") auto
  then show ?thesis
  proof cases
    case clear
    then have "fix_data_bit x s =
        s\<lparr>data_bitmap := clear_bit (data_bitmap s) (x - 8), errors_fixed := errors_fixed s + 1\<rparr>"
      by (simp add: fix_data_bit_def start)
    moreover have "\<forall>k. get_bit (clear_bit (data_bitmap s) (x - 8)) k =
        (if k + 8 = x then of_bool (block_referenced s x) else get_bit (data_bitmap s) k)"
      using clear by (simp add: get_bit_clear_bit idx)
    ultimately show ?thesis
      by (intro exI [of _ "clear_bit (data_bitmap s) (x - 8)"] exI [of _ "errors_fixed s + 1"]) simp
  next
    case set
    then have "fix_data_bit x s =
        s\<lparr>data_bitmap := set_bit (data_bitmap s) (x - 8), errors_fixed := errors_fixed s + 1\<rparr>"
      by (simp add: fix_data_bit_def start)
    moreover have "\<forall>k. get_bit (set_bit (data_bitmap s) (x - 8)) k =
        (if k + 8 = x then of_bool (block_referenced s x) else get_bit (data_bitmap s) k)"
      using set by (simp add: get_bit_set_bit idx)
    ultimately show ?thesis
      by (intro exI [of _ "set_bit (data_bitmap s) (x - 8)"] exI [of _ "errors_fixed s + 1"]) simp
  next
    case keep
    then have "fix_data_bit x s = s"
      by (cases "block_referenced s x") (simp_all add: fix_data_bit_def start)
    then have "fix_data_bit x s = s\<lparr>data_bitmap := data_bitmap s, errors_fixed := errors_fixed s\<rparr>"
      by simp
    moreover have "\<forall>k. get_bit (data_bitmap s) k =
        (if k + 8 = x then of_bool (block_referenced s x) else get_bit (data_bitmap s) k)"
      using keep by (auto simp add: idx)
    ultimately show ?thesis
      by (intro exI [of _ "data_bitmap s"] exI [of _ "errors_fixed s"]) simp
  qed
qed

lemma fold_fix_data_bit:
  assumes "data_block_start (superblock s) = 8" and "\<forall>x \<in> set xs. 8 \<le> x"
  shows "\<exists>bm e. fold fix_data_bit xs s = s\<lparr>data_bitmap := bm, errors_fixed := e\<rparr> \<and>
           errors_fixed s \<le> e \<and>
           (\<forall>k. get_bit bm k =
              (if k + 8 \<in> set xs then of_bool (block_referenced s (k + 8))
               else get_bit (data_bitmap s) k))"
  using assms
proof (induction xs arbitrary: s)
  case Nil
  show ?case
    by (intro exI [of _ "data_bitmap s"] exI [of _ "errors_fixed s"]) simp
next
  case (Cons x xs)
  obtain bm e where 1: "fix_data_bit x s = s\<lparr>data_bitmap := bm, errors_fixed := e\<rparr>"
    and 2: "errors_fixed s \<le> e"
    and 3: "\<forall>k. get_bit bm k =
              (if k + 8 = x then of_bool (block_referenced s x) else get_bit (data_bitmap s) k)"
    using fix_data_bit_eq [of s x] Cons.prems by auto
  define t where "t = s\<lparr>data_bitmap := bm, errors_fixed := e\<rparr>"
  have t: "data_block_start (superblock t) = 8" "block_referenced t = block_referenced s"
    "data_bitmap t = bm" "errors_fixed t = e"
    using Cons.prems by (simp_all add: t_def)
  obtain bm' e' where 4: "fold fix_data_bit xs t = t\<lparr>data_bitmap := bm', errors_fixed := e'\<rparr>"
    and 5: "errors_fixed t \<le> e'"
    and 6: "\<forall>k. get_bit bm' k =
              (if k + 8 \<in> set xs then of_bool (block_referenced t (k + 8))
               else get_bit (data_bitmap t) k)"
    using Cons.IH [of t] t(1) Cons.prems(2) by auto
  have "fold fix_data_bit (x # xs) s = s\<lparr>data_bitmap := bm', errors_fixed := e'\<rparr>"
    using 1 4 by (simp add: t_def)
  moreover have "errors_fixed s \<le> e'" using 2 5 t by simp
  moreover have "\<forall>k. get_bit bm' k =
              (if k + 8 \<in> set (x # xs) then of_bool (block_referenced s (k + 8))
               else get_bit (data_bitmap s) k)"
    using 3 6 t by auto
  ultimately show ?case by blast
qed

lemma bad_pointer_0 [simp]: "\<not> bad_pointer start 0"
  by (simp add: bad_pointer_def)

lemma bad_pointer_out_of_range:
  "v \<noteq> 0 \<and> out_of_range s v \<longleftrightarrow> bad_pointer (data_block_start (superblock s)) v"
  by (simp add: bad_pointer_def out_of_range_def)

lemma block_index: "v < 64 \<Longrightarrow> block_offset v div 4096 = unat (v :: u32)"
proof -
  assume "v < 64"
  then have "unat v < 64" by (simp add: word_less_nat_alt)
  then have "unat v * unat (4096 :: u32) < 2 ^ LENGTH(32)" by simp
  then have "unat (v * 4096) = unat v * unat (4096 :: u32)"
    by (simp only: unat_mult_lem)
  then show ?thesis by (simp add: block_offset_def)
qed

lemma fix_direct_eq:
  "\<exists>e. fix_direct i x s =
      s\<lparr>inodes := (inodes s)(i := (inodes s i)\<lparr>direct_blocks :=
            (\<lambda>j. if j = x \<and> bad_pointer (data_block_start (superblock s)) (direct_blocks (inodes s i) j)
                 then 0 else direct_blocks (inodes s i) j)\<rparr>),
        errors_fixed := e\<rparr> \<and> errors_fixed s \<le> e"
proof (cases "bad_pointer (data_block_start (superblock s)) (direct_blocks (inodes s i) x)")
  case True
  then have "(\<lambda>j. if j = x \<and> bad_pointer (data_block_start (superblock s)) (direct_blocks (inodes s i) j)
                 then 0 else direct_blocks (inodes s i) j) = (direct_blocks (inodes s i))(x := 0)"
    by (auto simp add: fun_eq_iff)
  with True show ?thesis
    by (intro exI [of _ "errors_fixed s + 1"])
       (simp add: fix_direct_def Let_def bad_pointer_out_of_range)
next
  case False
  then have "(\<lambda>j. if j = x \<and> bad_pointer (data_block_start (superblock s)) (direct_blocks (inodes s i) j)
                 then 0 else direct_blocks (inodes s i) j) = direct_blocks (inodes s i)"
    by (auto simp add: fun_eq_iff)
  with False show ?thesis
    by (intro exI [of _ "errors_fixed s"])
       (simp add: fix_direct_def Let_def bad_pointer_out_of_range)
qed

lemma fold_fix_direct:
  "\<exists>e. fold (fix_direct i) xs s =
      s\<lparr>inodes := (inodes s)(i := (inodes s i)\<lparr>direct_blocks :=
            (\<lambda>j. if j \<in> set xs \<and> bad_pointer (data_block_start (superblock s)) (direct_blocks (inodes s i) j)
                 then 0 else direct_blocks (inodes s i) j)\<rparr>),
        errors_fixed := e\<rparr> \<and> errors_fixed s \<le> e"
proof (induction xs arbitrary: s)
  case Nil
  show ?case by (intro exI [of _ "errors_fixed s"]) simp
next
  case (Cons x xs)
  define start where "start = data_block_start (superblock s)"
  define d where "d = direct_blocks (inodes s i)"
  define d1 where "d1 = (\<lambda>j. if j = x \<and> bad_pointer start (d j) then 0 else d j)"
  obtain e where 1: "fix_direct i x s =
      s\<lparr>inodes := (inodes s)(i := (inodes s i)\<lparr>direct_blocks := d1\<rparr>), errors_fixed := e\<rparr>"
    and 2: "errors_fixed s \<le> e"
    using fix_direct_eq [of i x s] unfolding start_def d_def d1_def by blast
  define t where "t = s\<lparr>inodes := (inodes s)(i := (inodes s i)\<lparr>direct_blocks := d1\<rparr>), errors_fixed := e\<rparr>"
  have t: "data_block_start (superblock t) = start" "direct_blocks (inodes t i) = d1"
    "errors_fixed t = e"
    by (simp_all add: t_def start_def)
  obtain e' where 3: "fold (fix_direct i) xs t =
      t\<lparr>inodes := (inodes t)(i := (inodes t i)\<lparr>direct_blocks :=
            (\<lambda>j. if j \<in> set xs \<and> bad_pointer start (d1 j) then 0 else d1 j)\<rparr>),
        errors_fixed := e'\<rparr>" and 4: "e \<le> e'"
    using Cons.IH [of t] unfolding t by blast
  have 5: "(\<lambda>j. if j \<in> set xs \<and> bad_pointer start (d1 j) then 0 else d1 j) =
      (\<lambda>j. if j \<in> set (x # xs) \<and> bad_pointer start (d j) then 0 else d j)"
    by (auto simp add: fun_eq_iff d1_def)
  have "fold (fix_direct i) (x # xs) s =
      s\<lparr>inodes := (inodes s)(i := (inodes s i)\<lparr>direct_blocks :=
            (\<lambda>j. if j \<in> set (x # xs) \<and> bad_pointer start (d j) then 0 else d j)\<rparr>),
        errors_fixed := e'\<rparr>"
    using 1 3 unfolding 5 by (simp add: t_def)
  moreover have "errors_fixed s \<le> e'" using 2 4 by simp
  ultimately show ?case unfolding start_def d_def by blast
qed

lemma fold_fix_entry:
  "\<exists>e. fold fix_entry xs (en, m, s) =
      ((\<lambda>j. if j \<in> set xs \<and> bad_pointer (data_block_start (superblock s)) (en j) then 0 else en j),
       m \<or> (\<exists>j \<in> set xs. bad_pointer (data_block_start (superblock s)) (en j)),
       s\<lparr>errors_fixed := e\<rparr>) \<and> errors_fixed s \<le> e"
proof (induction xs arbitrary: en m s)
  case Nil
  show ?case by (intro exI [of _ "errors_fixed s"]) simp
next
  case (Cons x xs)
  define start where "start = data_block_start (superblock s)"
  show ?case
  proof (cases "bad_pointer start (en x)")
    case True
    then have 1: "fix_entry x (en, m, s) = (en(x := 0), True, s\<lparr>errors_fixed := errors_fixed s + 1\<rparr>)"
      by (simp add: fix_entry_def Let_def bad_pointer_out_of_range start_def)
    have sb: "superblock (s\<lparr>errors_fixed := errors_fixed s + 1\<rparr>) = superblock s" by simp
    obtain e where 2: "fold fix_entry xs (en(x := 0), True, s\<lparr>errors_fixed := errors_fixed s + 1\<rparr>) =
      ((\<lambda>j. if j \<in> set xs \<and> bad_pointer start ((en(x := 0)) j) then 0 else (en(x := 0)) j),
       True \<or> (\<exists>j \<in> set xs. bad_pointer start ((en(x := 0)) j)),
       s\<lparr>errors_fixed := errors_fixed s + 1\<rparr>\<lparr>errors_fixed := e\<rparr>)"
      and 3: "errors_fixed (s\<lparr>errors_fixed := errors_fixed s + 1\<rparr>) \<le> e"
      using Cons.IH [of "en(x := 0)" True "s\<lparr>errors_fixed := errors_fixed s + 1\<rparr>"]
      unfolding start_def sb by blast
    have 4: "(\<lambda>j. if j \<in> set xs \<and> bad_pointer start ((en(x := 0)) j) then 0 else (en(x := 0)) j) =
        (\<lambda>j. if j \<in> set (x # xs) \<and> bad_pointer start (en j) then 0 else en j)"
      using True by (auto simp add: fun_eq_iff)
    have "fold fix_entry (x # xs) (en, m, s) =
      ((\<lambda>j. if j \<in> set (x # xs) \<and> bad_pointer start (en j) then 0 else en j),
       m \<or> (\<exists>j \<in> set (x # xs). bad_pointer start (en j)), s\<lparr>errors_fixed := e\<rparr>)"
      using 1 2 True unfolding 4 by simp
    moreover have "errors_fixed s \<le> e" using 3 by simp
    ultimately show ?thesis unfolding start_def by blast
  next
    case False
    then have 1: "fix_entry x (en, m, s) = (en, m, s)"
      by (simp add: fix_entry_def Let_def bad_pointer_out_of_range start_def)
    obtain e where 2: "fold fix_entry xs (en, m, s) =
      ((\<lambda>j. if j \<in> set xs \<and> bad_pointer start (en j) then 0 else en j),
       m \<or> (\<exists>j \<in> set xs. bad_pointer start (en j)), s\<lparr>errors_fixed := e\<rparr>)"
      and 3: "errors_fixed s \<le> e"
      using Cons.IH [of en m s] unfolding start_def by blast
    have 4: "(\<lambda>j. if j \<in> set xs \<and> bad_pointer start (en j) then 0 else en j) =
        (\<lambda>j. if j \<in> set (x # xs) \<and> bad_pointer start (en j) then 0 else en j)"
      using False by (auto simp add: fun_eq_iff)
    have "fold fix_entry (x # xs) (en, m, s) =
      ((\<lambda>j. if j \<in> set (x # xs) \<and> bad_pointer start (en j) then 0 else en j),
       m \<or> (\<exists>j \<in> set (x # xs). bad_pointer start (en j)), s\<lparr>errors_fixed := e\<rparr>)"
      using 1 2 False unfolding 4 by simp
    then show ?thesis using 3 unfolding start_def by blast
  qed
qed

lemma image_readableD: "image_readable s \<Longrightarrow> b < 64 \<Longrightarrow> \<exists>blk. fs_image s b = Some blk"
  by (auto simp add: image_readable_def list_all_iff)

lemma image_repaired_refl: "image_repaired start img img"
  by (simp add: image_repaired_def entry_repaired_def option.rel_refl)

lemma image_repaired_trans:
  assumes "image_repaired start a b" and "image_repaired start b c"
  shows "image_repaired start a c"
  unfolding image_repaired_def
proof
  fix k
  have 1: "rel_option (\<lambda>blk blk'. \<forall>j. entry_repaired start (blk j) (blk' j)) (a k) (b k)"
    and 2: "rel_option (\<lambda>blk blk'. \<forall>j. entry_repaired start (blk j) (blk' j)) (b k) (c k)"
    using assms by (simp_all add: image_repaired_def)
  show "rel_option (\<lambda>blk blk'. \<forall>j. entry_repaired start (blk j) (blk' j)) (a k) (c k)"
  proof (cases "a k")
    case None
    with 1 2 show ?thesis by (cases "b k"; cases "c k") simp_all
  next
    case (Some x)
    with 1 obtain y where y: "b k = Some y" "\<forall>j. entry_repaired start (x j) (y j)"
      by (cases "b k") simp_all
    with 2 obtain z where z: "c k = Some z" "\<forall>j. entry_repaired start (y j) (z j)"
      by (cases "c k") simp_all
    have "entry_repaired start (x j) (z j)" for j
      using y(2) z(2) unfolding entry_repaired_def by (metis bad_pointer_0)
    with Some z(1) show ?thesis by simp
  qed
qed

lemma image_repaired_update:
  assumes "img b = Some en" and "\<forall>j. entry_repaired start (en j) (en' j)"
  shows "image_repaired start img (img(b := Some en'))"
  using assms by (simp add: image_repaired_def entry_repaired_def option.rel_refl)

lemma in_range_index:
  assumes "\<not> out_of_range s v"
  shows "block_offset v div 4096 = unat v" and "unat v < 64"
proof -
  from assms have "v < 64" by (simp add: out_of_range_def not_le)
  then show "block_offset v div 4096 = unat v" by (rule block_index)
  from \<open>v < 64\<close> show "unat v < 64" by (simp add: word_less_nat_alt)
qed

lemma fix_inode_blocks_eq:
  assumes "image_readable s"
  shows "\<exists>e img ws. fix_inode_blocks i s =
      Some (s\<lparr>inodes := (inodes s)
                (i := repaired_inode (data_block_start (superblock s)) (inodes s i)),
              errors_fixed := e, fs_image := img, writes := writes s @ ws\<rparr>) \<and>
      errors_fixed s \<le> e \<and> list_all is_indirect_write ws \<and>
      image_repaired (data_block_start (superblock s)) (fs_image s) img \<and>
      (ws = [] \<longrightarrow> img = fs_image s) \<and>
      (indirect_needs_repair (data_block_start (superblock s)) s i \<longrightarrow> ws \<noteq> [])"
proof (cases "is_valid_inode s i")
  case False
  then have "fix_inode_blocks i s = Some s" by (simp add: fix_inode_blocks_def)
  moreover have "\<not> indirect_needs_repair (data_block_start (superblock s)) s i"
    using False by (auto simp add: indirect_needs_repair_def is_valid_inode_def)
  moreover have "repaired_inode (data_block_start (superblock s)) (inodes s i) = inodes s i"
    using False by (auto simp add: repaired_inode_def is_valid_inode_def)
  ultimately show ?thesis
    by (intro exI [of _ "errors_fixed s"] exI [of _ "fs_image s"] exI [of _ "[]"])
       (simp add: image_repaired_refl)
next
  case True
  define start where "start = data_block_start (superblock s)"
  define ino where "ino = inodes s i"
  define D where "D = (\<lambda>j. if j \<in> set [0..<12] \<and> bad_pointer start (direct_blocks ino j)
      then 0 else direct_blocks ino j)"
  define ind where "ind = indirect_block ino"
  obtain e1 where t: "fold (fix_direct i) [0..<12] s =
      s\<lparr>inodes := (inodes s)(i := ino\<lparr>direct_blocks := D\<rparr>), errors_fixed := e1\<rparr>"
    and e1: "errors_fixed s \<le> e1"
    using fold_fix_direct [of i "[0..<12]" s] unfolding start_def ino_def D_def by blast
  define t where "t = s\<lparr>inodes := (inodes s)(i := ino\<lparr>direct_blocks := D\<rparr>), errors_fixed := e1\<rparr>"
  have valid: "0 < nlink ino \<and> dtime ino = 0"
    using True by (simp add: is_valid_inode_def ino_def)
  have D: "D = (\<lambda>j. if j < 12 \<and> bad_pointer start (direct_blocks ino j) then 0
      else direct_blocks ino j)"
    by (simp add: D_def)
  have rep: "repaired_inode start ino =
      ino\<lparr>direct_blocks := D, indirect_block := (if bad_pointer start ind then 0 else ind)\<rparr>"
    using valid by (simp add: repaired_inode_def D ind_def)
  have tfacts: "indirect_block (inodes t i) = ind" "out_of_range t = out_of_range s"
    "read_block t = read_block s" "data_block_start (superblock t) = start"
    by (simp_all add: t_def ind_def fun_eq_iff out_of_range_def read_block_def start_def)
  have unfold: "fix_inode_blocks i s =
      (if ind \<noteq> 0 then
         if out_of_range s ind
         then Some (t\<lparr>inodes := (inodes t)(i := (inodes t i)\<lparr>indirect_block := 0\<rparr>),
                      errors_fixed := errors_fixed t + 1\<rparr>)
         else Option.bind (read_block s ind) (\<lambda>indirect_entries.
            Some (if fst (snd (fold fix_entry [0..<1024] (indirect_entries, False, t)))
                  then write_indirect ind (fst (fold fix_entry [0..<1024] (indirect_entries, False, t)))
                         (snd (snd (fold fix_entry [0..<1024] (indirect_entries, False, t))))
                  else snd (snd (fold fix_entry [0..<1024] (indirect_entries, False, t)))))
       else Some t)"
    using True by (simp add: fix_inode_blocks_def Let_def t [folded t_def] tfacts cong: if_cong)
  have bp: "bad_pointer start ind \<longleftrightarrow> ind \<noteq> 0 \<and> out_of_range s ind"
    unfolding start_def by (rule bad_pointer_out_of_range [symmetric])
  consider (none) "ind = 0" | (bad) "ind \<noteq> 0" "out_of_range s ind"
    | (good) "ind \<noteq> 0" "\<not> out_of_range s ind"
    by blast
  then show ?thesis
  proof cases
    case none
    then have "fix_inode_blocks i s = Some t" by (simp add: unfold)
    moreover have "repaired_inode start ino = ino\<lparr>direct_blocks := D\<rparr>"
      using none by (simp add: rep ind_def)
    moreover have "\<not> indirect_needs_repair start s i"
      using none by (simp add: indirect_needs_repair_def ind_def ino_def)
    ultimately show ?thesis unfolding start_def [symmetric] ino_def [symmetric]
      using e1
      by (intro exI [of _ e1] exI [of _ "fs_image s"] exI [of _ "[]"])
         (simp add: image_repaired_refl t_def)
  next
    case bad
    then have "fix_inode_blocks i s =
        Some (t\<lparr>inodes := (inodes t)(i := (inodes t i)\<lparr>indirect_block := 0\<rparr>),
                errors_fixed := errors_fixed t + 1\<rparr>)"
      by (simp add: unfold)
    moreover have "repaired_inode start ino = ino\<lparr>direct_blocks := D, indirect_block := 0\<rparr>"
      using bad by (simp add: rep bp)
    moreover have "\<not> indirect_needs_repair start s i"
      using bad bp by (simp add: indirect_needs_repair_def ind_def ino_def)
    ultimately show ?thesis unfolding start_def [symmetric] ino_def [symmetric]
      using e1
      by (intro exI [of _ "e1 + 1"] exI [of _ "fs_image s"] exI [of _ "[]"])
         (simp add: image_repaired_refl t_def)
  next
    case good
    have idx: "block_offset ind div 4096 = unat ind" "unat ind < 64"
      using in_range_index [OF good(2)] by simp_all
    then obtain en where en: "read_block s ind = Some en" "fs_image s (unat ind) = Some en"
      using image_readableD [OF assms, of "unat ind"] by (auto simp add: read_block_def)
    define en' where "en' = (\<lambda>j. if j \<in> set [0..<1024] \<and> bad_pointer start (en j) then 0 else en j)"
    define m where "m \<longleftrightarrow> False \<or> (\<exists>j \<in> set [0..<1024]. bad_pointer start (en j))"
    obtain e2 where f: "fold fix_entry [0..<1024] (en, False, t) = (en', m, t\<lparr>errors_fixed := e2\<rparr>)"
      and e2: "errors_fixed t \<le> e2"
      using fold_fix_entry [of "[0..<1024]" en False t] unfolding tfacts en'_def m_def by blast
    have needs: "indirect_needs_repair start s i \<longleftrightarrow> m"
      using good valid en(2) bp
      by (simp add: indirect_needs_repair_def ind_def [symmetric] ino_def [symmetric] m_def
          list_ex_iff del: upt_rec_numeral)
    have "\<not> bad_pointer start ind" using good by (simp add: bp)
    then have rep': "repaired_inode start ino = ino\<lparr>direct_blocks := D\<rparr>"
      unfolding rep by (simp add: ind_def)
    have le: "errors_fixed s \<le> e2" using e1 e2 by (simp add: t_def)
    have en'_rel: "\<forall>j. entry_repaired start (en j) (en' j)"
      by (simp add: entry_repaired_def en'_def)
    show ?thesis
    proof (cases m)
      case True
      then have "fix_inode_blocks i s = Some (write_indirect ind en' (t\<lparr>errors_fixed := e2\<rparr>))"
        by (simp add: unfold good en f)
      moreover have "image_repaired start (fs_image s) ((fs_image s)(unat ind := Some en'))"
        using en(2) en'_rel by (rule image_repaired_update)
      ultimately show ?thesis unfolding start_def [symmetric] ino_def [symmetric]
        using le
        by (intro exI [of _ e2] exI [of _ "(fs_image s)(unat ind := Some en')"]
              exI [of _ "[W_indirect (block_offset ind)]"])
           (simp add: t_def rep' write_indirect_def idx is_indirect_write_def)
    next
      case False
      then have "fix_inode_blocks i s = Some (t\<lparr>errors_fixed := e2\<rparr>)"
        by (simp add: unfold good en f)
      moreover have "\<not> indirect_needs_repair start s i" using False needs by simp
      ultimately show ?thesis unfolding start_def [symmetric] ino_def [symmetric]
        using le
        by (intro exI [of _ e2] exI [of _ "fs_image s"] exI [of _ "[]"])
           (simp add: t_def rep' image_repaired_refl)
    qed
  qed
qed

lemma repaired_inode_idem:
  "repaired_inode start (repaired_inode start ino) = repaired_inode start ino"
  by (rule inode_t.equality) (auto simp add: repaired_inode_def fun_eq_iff)

lemma image_repaired_readable:
  assumes "image_repaired start (fs_image s) img" and "image_readable s"
    and "fs_image t = img"
  shows "image_readable t"
  unfolding image_readable_def list_all_iff
proof
  fix b assume "b \<in> set [0..<64]"
  then obtain blk where "fs_image s b = Some blk"
    using image_readableD [OF assms(2), of b] by auto
  moreover have "rel_option (\<lambda>blk blk'. \<forall>j. entry_repaired start (blk j) (blk' j)) (fs_image s b) (img b)"
    using assms(1) by (simp add: image_repaired_def)
  ultimately show "fs_image t b \<noteq> None"
    using assms(3) by (cases "img b") simp_all
qed

lemma for_each_fix_inode_blocks:
  assumes "image_readable s"
  shows "\<exists>e img ws. for_each xs fix_inode_blocks s =
      Some (s\<lparr>inodes := (\<lambda>k. if k \<in> set xs
                 then repaired_inode (data_block_start (superblock s)) (inodes s k)
                 else inodes s k),
              errors_fixed := e, fs_image := img, writes := writes s @ ws\<rparr>) \<and>
      errors_fixed s \<le> e \<and> list_all is_indirect_write ws \<and>
      image_repaired (data_block_start (superblock s)) (fs_image s) img \<and>
      ((\<exists>i \<in> set xs. indirect_needs_repair (data_block_start (superblock s)) s i) \<longrightarrow> ws \<noteq> [])"
  using assms
proof (induction xs arbitrary: s)
  case Nil
  show ?case
    by (intro exI [of _ "errors_fixed s"] exI [of _ "fs_image s"] exI [of _ "[]"])
       (simp add: image_repaired_refl)
next
  case (Cons x xs)
  define start where "start = data_block_start (superblock s)"
  obtain e1 img1 ws1 where 1: "fix_inode_blocks x s =
      Some (s\<lparr>inodes := (inodes s)(x := repaired_inode start (inodes s x)),
              errors_fixed := e1, fs_image := img1, writes := writes s @ ws1\<rparr>)"
    and 2: "errors_fixed s \<le> e1" "list_all is_indirect_write ws1"
      "image_repaired start (fs_image s) img1"
    and w1: "ws1 = [] \<longrightarrow> img1 = fs_image s" "indirect_needs_repair start s x \<longrightarrow> ws1 \<noteq> []"
    using fix_inode_blocks_eq [OF Cons.prems, of x] unfolding start_def by blast
  define t where "t = s\<lparr>inodes := (inodes s)(x := repaired_inode start (inodes s x)),
              errors_fixed := e1, fs_image := img1, writes := writes s @ ws1\<rparr>"
  have t: "data_block_start (superblock t) = start" "fs_image t = img1" "errors_fixed t = e1"
    "writes t = writes s @ ws1" "inodes t = (inodes s)(x := repaired_inode start (inodes s x))"
    by (simp_all add: t_def start_def)
  have "image_readable t"
    using 2(3) Cons.prems t(2) by (rule image_repaired_readable)
  then obtain e2 img2 ws2 where 3: "for_each xs fix_inode_blocks t =
      Some (t\<lparr>inodes := (\<lambda>k. if k \<in> set xs then repaired_inode start (inodes t k) else inodes t k),
              errors_fixed := e2, fs_image := img2, writes := writes t @ ws2\<rparr>)"
    and 4: "errors_fixed t \<le> e2" "list_all is_indirect_write ws2"
      "image_repaired start (fs_image t) img2"
    and w2: "(\<exists>i \<in> set xs. indirect_needs_repair start t i) \<longrightarrow> ws2 \<noteq> []"
    using Cons.IH [of t] unfolding t(1) by blast
  have 5: "(\<lambda>k. if k \<in> set xs then repaired_inode start (inodes t k) else inodes t k) =
      (\<lambda>k. if k \<in> set (x # xs) then repaired_inode start (inodes s k) else inodes s k)"
    by (auto simp add: fun_eq_iff t(5) repaired_inode_idem)
  have "for_each (x # xs) fix_inode_blocks s =
      Some (s\<lparr>inodes := (\<lambda>k. if k \<in> set (x # xs) then repaired_inode start (inodes s k)
                 else inodes s k),
              errors_fixed := e2, fs_image := img2, writes := writes s @ (ws1 @ ws2)\<rparr>)"
    using 1 3 unfolding 5 by (simp add: t_def)
  moreover have "errors_fixed s \<le> e2" using 2(1) 4(1) t(3) by simp
  moreover have "list_all is_indirect_write (ws1 @ ws2)" using 2(2) 4(2) by simp
  moreover have "image_repaired start (fs_image s) img2"
    using 2(3) 4(3) unfolding t(2) by (rule image_repaired_trans)
  moreover have "(\<exists>i \<in> set (x # xs). indirect_needs_repair start s i) \<longrightarrow> ws1 @ ws2 \<noteq> []"
  proof
    assume "\<exists>i \<in> set (x # xs). indirect_needs_repair start s i"
    then obtain i where i: "i \<in> set (x # xs)" "indirect_needs_repair start s i" by blast
    show "ws1 @ ws2 \<noteq> []"
    proof (cases "ws1 = []")
      case True
      then have same: "img1 = fs_image s" and "i \<noteq> x" using w1 i(2) by auto
      then have "i \<in> set xs" "inodes t i = inodes s i" using i(1) by (simp_all add: t(5))
      then have "indirect_needs_repair start t i"
        using i(2) same by (simp add: indirect_needs_repair_def t(2))
      then show ?thesis using w2 \<open>i \<in> set xs\<close> by blast
    next
      case False
      then show ?thesis by simp
    qed
  qed
  ultimately show ?case unfolding start_def by blast
qed

lemma fold_write_inode:
  "fold write_inode xs s =
     s\<lparr>writes := writes s @
        map (\<lambda>i. W_inode (unat (inode_table_start (superblock s) * 4096 + of_nat i * 256)) i) xs\<rparr>"
  by (induction xs arbitrary: s) (simp_all add: write_inode_def)

lemma inode_offset: "i < 80 \<Longrightarrow> unat (3 * 4096 + of_nat i * 256 :: u32) = 12288 + 256 * i"
  by (rule of_nat_inverse) simp_all

lemma repaired_superblock_fields [simp]:
  "magic (repaired_superblock sb) = 0xD34D"
  "block_size (repaired_superblock sb) = 4096"
  "total_blocks (repaired_superblock sb) = 64"
  "inode_bitmap_block (repaired_superblock sb) = 1"
  "data_bitmap_block (repaired_superblock sb) = 2"
  "inode_table_start (repaired_superblock sb) = 3"
  "data_block_start (repaired_superblock sb) = 8"
  "inode_size (repaired_superblock sb) = 256"
  "inode_count (repaired_superblock sb) = 80"
  "sb_reserved (repaired_superblock sb) = sb_reserved sb"
  by (simp_all add: repaired_superblock_def)

lemma image_readable_cong:
  "fs_image t = fs_image s \<Longrightarrow> image_readable t = image_readable s"
  by (simp add: image_readable_def)

lemma inode_offset_normal: "i < 80 \<Longrightarrow> unat (12288 + of_nat i * 256 :: u32) = 12288 + 256 * i"
  using inode_offset [of i] by simp

lemma fix_errors_effect:
  assumes "image_readable s"
  shows "\<exists>bmi bmd e img ws. fix_errors s =
      Some (s\<lparr>superblock := repaired_superblock (superblock s),
              inode_bitmap := bmi, data_bitmap := bmd,
              inodes := (\<lambda>k. if k < 80 then repaired_inode 8 (inodes s k) else inodes s k),
              errors_fixed := e, fs_image := img,
              writes := writes s @ ws @
                W_superblock 0 # W_inode_bitmap 4096 # W_data_bitmap 8192 #
                map (\<lambda>i. W_inode (12288 + 256 * i) i) [0..<80]\<rparr>) \<and>
      errors_fixed s + superblock_repairs (superblock s) \<le> e \<and>
      list_all is_indirect_write ws \<and>
      image_repaired 8 (fs_image s) img \<and>
      (\<forall>k. get_bit bmd k =
         (if k < 56 then of_bool (block_referenced s (k + 8)) else get_bit (data_bitmap s) k)) \<and>
      ((\<exists>i < 80. indirect_needs_repair 8 s i) \<longrightarrow> ws \<noteq> [])"
proof -
  define s1 where "s1 = fix_superblock s"
  have s1: "s1 = s\<lparr>superblock := repaired_superblock (superblock s),
       errors_fixed := errors_fixed s + superblock_repairs (superblock s)\<rparr>"
    by (simp add: s1_def fix_superblock_eq)
  define s2 where "s2 = fold fix_inode_bit [0..<80] s1"
  obtain bmi e2 where s2: "s2 = s1\<lparr>inode_bitmap := bmi, errors_fixed := e2\<rparr>"
    and e2: "errors_fixed s1 \<le> e2"
    using fold_fix_inode_bit [of "[0..<80]" s1] unfolding s2_def by blast
  have start2: "data_block_start (superblock s2) = 8" by (simp add: s2 s1)
  then have region: "data_region s2 = Some [8..<64]" by (simp add: data_region_def)
  define s3 where "s3 = fold fix_data_bit [8..<64] s2"
  obtain bmd e3 where s3: "s3 = s2\<lparr>data_bitmap := bmd, errors_fixed := e3\<rparr>"
    and e3: "errors_fixed s2 \<le> e3"
    and bits: "\<forall>k. get_bit bmd k =
              (if k + 8 \<in> set [8..<64] then of_bool (block_referenced s2 (k + 8))
               else get_bit (data_bitmap s2) k)"
    using fold_fix_data_bit [OF start2, of "[8..<64]"] unfolding s3_def by auto
  have readable3: "image_readable s3"
    using assms by (simp add: image_readable_def s3 s2 s1)
  have start3: "data_block_start (superblock s3) = 8" by (simp add: s3 s2 s1)
  obtain e img ws where s4: "for_each [0..<80] fix_inode_blocks s3 =
      Some (s3\<lparr>inodes := (\<lambda>k. if k \<in> set [0..<80] then repaired_inode 8 (inodes s3 k)
                 else inodes s3 k),
              errors_fixed := e, fs_image := img, writes := writes s3 @ ws\<rparr>)"
    and e: "errors_fixed s3 \<le> e" and ws: "list_all is_indirect_write ws"
    and img: "image_repaired 8 (fs_image s3) img"
    and wr: "(\<exists>i \<in> set [0..<80]. indirect_needs_repair 8 s3 i) \<longrightarrow> ws \<noteq> []"
    using for_each_fix_inode_blocks [OF readable3, of "[0..<80]"] unfolding start3 by blast
  have ino: "(\<lambda>k. if k \<in> set [0..<80] then repaired_inode 8 (inodes s3 k) else inodes s3 k) =
      (\<lambda>k. if k < 80 then repaired_inode 8 (inodes s k) else inodes s k)"
    by (simp add: fun_eq_iff s3 s2 s1)
  have offs: "map (\<lambda>i. W_inode (unat (12288 + of_nat i * 256 :: u32)) i) [0..<80] =
      map (\<lambda>i. W_inode (12288 + 256 * i) i) [0..<80]"
    by (rule map_cong) (simp_all add: inode_offset_normal)
  define s4 where "s4 = s3\<lparr>inodes := (\<lambda>k. if k \<in> set [0..<80] then repaired_inode 8 (inodes s3 k)
                 else inodes s3 k),
              errors_fixed := e, fs_image := img, writes := writes s3 @ ws\<rparr>"
  have run: "fix_errors s = Some (write_inodes (write_bitmaps (write_superblock s4)))"
    by (simp only: fix_errors_def Let_def s1_def [symmetric] s2_def [symmetric] region
        s3_def [symmetric] s4 s4_def [symmetric] Option.bind.simps)
  have s4_eq: "s4 = s\<lparr>superblock := repaired_superblock (superblock s),
              inode_bitmap := bmi, data_bitmap := bmd,
              inodes := (\<lambda>k. if k < 80 then repaired_inode 8 (inodes s k) else inodes s k),
              errors_fixed := e, fs_image := img, writes := writes s @ ws\<rparr>"
    unfolding s4_def ino by (simp add: s3 s2 s1)
  have "write_inodes (write_bitmaps (write_superblock s4)) =
      s\<lparr>superblock := repaired_superblock (superblock s),
              inode_bitmap := bmi, data_bitmap := bmd,
              inodes := (\<lambda>k. if k < 80 then repaired_inode 8 (inodes s k) else inodes s k),
              errors_fixed := e, fs_image := img,
              writes := writes s @ ws @
                W_superblock 0 # W_inode_bitmap 4096 # W_data_bitmap 8192 #
                map (\<lambda>i. W_inode (12288 + 256 * i) i) [0..<80]\<rparr>"
    unfolding write_inodes_def fold_write_inode write_bitmaps_def write_superblock_def s4_eq
    by (simp add: block_offset_def offs del: upt_rec_numeral)
  with run have "fix_errors s =
      Some (s\<lparr>superblock := repaired_superblock (superblock s),
              inode_bitmap := bmi, data_bitmap := bmd,
              inodes := (\<lambda>k. if k < 80 then repaired_inode 8 (inodes s k) else inodes s k),
              errors_fixed := e, fs_image := img,
              writes := writes s @ ws @
                W_superblock 0 # W_inode_bitmap 4096 # W_data_bitmap 8192 #
                map (\<lambda>i. W_inode (12288 + 256 * i) i) [0..<80]\<rparr>)"
    by simp
  moreover have "errors_fixed s + superblock_repairs (superblock s) \<le> e"
    using e2 e3 e by (simp add: s3 s2 s1)
  moreover have "image_repaired 8 (fs_image s) img"
    using img by (simp add: s3 s2 s1)
  moreover have "\<forall>k. get_bit bmd k =
         (if k < 56 then of_bool (block_referenced s (k + 8)) else get_bit (data_bitmap s) k)"
  proof -
    have mem: "k + 8 \<in> set [8..<64] \<longleftrightarrow> k < 56" for k :: nat
      unfolding set_upt by auto
    show ?thesis using bits unfolding mem by (simp add: s2 s1)
  qed
  moreover have "(\<exists>i < 80. indirect_needs_repair 8 s i) \<longrightarrow> ws \<noteq> []"
  proof -
    have "indirect_needs_repair 8 s3 i = indirect_needs_repair 8 s i" for i
      by (simp add: indirect_needs_repair_def s3 s2 s1)
    then show ?thesis using wr unfolding set_upt by auto
  qed
  ultimately show ?thesis using ws by blast
qed

lemma clean_state_readable: "image_readable clean_state"
  by (simp add: image_readable_def clean_state_def list_all_iff)

lemma bad_entry_state_readable: "image_readable bad_entry_state"
  by (simp add: image_readable_def bad_entry_state_def clean_state_def list_all_iff)

lemma bad_entry_state_needs_repair: "indirect_needs_repair 8 bad_entry_state 0"
proof -
  have "bad_pointer 8 ((\<lambda>j. if j = 0 then 100 else 0) (0::nat))"
    by (simp add: bad_pointer_def)
  then have "list_ex (\<lambda>j. bad_pointer 8 (if j = 0 then 100 else 0)) [0..<1024]"
    unfolding list_ex_iff set_upt by (intro bexI [of _ 0]) simp_all
  then show ?thesis
    by (simp add: indirect_needs_repair_def bad_entry_state_def clean_state_def free_inode_def
        bad_pointer_def del: upt_rec_numeral)
qed

section \<open>Lemmas: the bad-block validator\<close>

lemma for_each_add_findings:
  assumes step: "\<And>x cs. x \<in> set xs \<Longrightarrow> P (snd cs) \<Longrightarrow>
      f x cs = Some (add_findings (g (snd cs) x) cs)"
    and frame: "\<And>ms cs x. g (snd (add_findings ms cs)) x = g (snd cs) x"
    and Pframe: "\<And>ms cs. P (snd (add_findings ms cs)) = P (snd cs)"
    and P: "P (snd cs)"
  shows "for_each xs f cs = Some (add_findings (concat (map (g (snd cs)) xs)) cs)"
  using step P
proof (induction xs arbitrary: cs)
  case Nil
  show ?case by simp
next
  case (Cons x xs)
  have 1: "f x cs = Some (add_findings (g (snd cs) x) cs)"
    using Cons.prems by simp
  have "for_each xs f (add_findings (g (snd cs) x) cs) =
      Some (add_findings (concat (map (g (snd (add_findings (g (snd cs) x) cs))) xs))
        (add_findings (g (snd cs) x) cs))"
    using Cons.prems by (intro Cons.IH) (simp_all add: Pframe)
  moreover have "g (snd (add_findings (g (snd cs) x) cs)) = g (snd cs)"
    by (rule ext) (rule frame)
  ultimately show ?case using 1 by simp
qed

lemma check_direct_add: "check_direct i j cs = add_findings (direct_findings (snd cs) i j) cs"
  by (simp add: check_direct_def direct_findings_def Let_def flag_error_add
      bad_pointer_out_of_range)

lemma check_entry_add:
  "check_entry i en j cs = add_findings (entry_findings (snd cs) i en j) cs"
  by (simp add: check_entry_def entry_findings_def Let_def flag_error_add
      bad_pointer_out_of_range)

lemma fold_check_direct:
  "fold (check_direct i) xs cs = add_findings (concat (map (direct_findings (snd cs) i) xs)) cs"
  by (rule fold_add_findings [where g = "\<lambda>s. direct_findings s i"])
     (simp_all add: check_direct_add direct_findings_def)

lemma fold_check_entry:
  "fold (check_entry i en) xs cs =
     add_findings (concat (map (entry_findings (snd cs) i en) xs)) cs"
  by (rule fold_add_findings [where g = "\<lambda>s. entry_findings s i en"])
     (simp_all add: check_entry_add entry_findings_def)

lemma image_readable_add_findings [simp]:
  "image_readable (snd (add_findings ms cs)) = image_readable (snd cs)"
  by (simp add: image_readable_def)

lemma direct_findings_frame [simp]:
  "direct_findings (snd (add_findings ms cs)) i = direct_findings (snd cs) i"
  by (simp add: fun_eq_iff direct_findings_def)

lemma entry_findings_frame [simp]:
  "entry_findings (snd (add_findings ms cs)) i en = entry_findings (snd cs) i en"
  by (simp add: fun_eq_iff entry_findings_def)

lemma indirect_findings_frame [simp]:
  "indirect_findings (snd (add_findings ms cs)) i = indirect_findings (snd cs) i"
  by (simp add: indirect_findings_def Let_def del: upt_rec_numeral
      cong: if_cong option.case_cong)

lemma bad_block_findings_frame [simp]:
  "bad_block_findings (snd (add_findings ms cs)) i = bad_block_findings (snd cs) i"
  by (simp add: bad_block_findings_def del: upt_rec_numeral)

lemma check_inode_blocks_add:
  assumes "image_readable (snd cs)"
  shows "check_inode_blocks i cs = Some (add_findings (bad_block_findings (snd cs) i) cs)"
proof (cases "is_valid_inode (snd cs) i")
  case False
  then show ?thesis
    by (auto simp add: check_inode_blocks_def bad_block_findings_def is_valid_inode_def)
next
  case True
  define s where "s = snd cs"
  define ind where "ind = indirect_block (inodes s i)"
  define ds where "ds = concat (map (direct_findings s i) [0..<12])"
  have valid: "0 < nlink (inodes s i) \<and> dtime (inodes s i) = 0"
    using True by (simp add: is_valid_inode_def s_def)
  have bp: "bad_pointer (data_block_start (superblock s)) ind \<longleftrightarrow> ind \<noteq> 0 \<and> out_of_range s ind"
    by (rule bad_pointer_out_of_range [symmetric])
  have unfold: "check_inode_blocks i cs =
      (if ind \<noteq> 0 then
         if out_of_range s ind then Some (flag_error (Bad_indirect i ind) (add_findings ds cs))
         else Option.bind (read_block s ind)
           (\<lambda>en. Some (fold (check_entry i en) [0..<1024] (add_findings ds cs)))
       else Some (add_findings ds cs))"
    using True
    by (simp add: check_inode_blocks_def Let_def fold_check_direct s_def [symmetric]
        ind_def [symmetric] ds_def [symmetric] out_of_range_def read_block_def
        del: upt_rec_numeral cong: if_cong)
  consider (none) "ind = 0" | (bad) "ind \<noteq> 0" "out_of_range s ind"
    | (good) "ind \<noteq> 0" "\<not> out_of_range s ind"
    by blast
  then show ?thesis
  proof cases
    case none
    then have "bad_block_findings s i = ds"
      using valid by (simp add: bad_block_findings_def indirect_findings_def ds_def ind_def)
    then show ?thesis using none by (simp add: unfold s_def)
  next
    case bad
    then have "bad_block_findings s i = ds @ [Bad_indirect i ind]"
      using valid bp
      by (simp add: bad_block_findings_def indirect_findings_def ds_def ind_def [symmetric])
    then show ?thesis using bad by (simp add: unfold s_def flag_error_add)
  next
    case good
    have idx: "block_offset ind div 4096 = unat ind" "unat ind < 64"
      using in_range_index [OF good(2)] by simp_all
    then obtain en where en: "read_block s ind = Some en" "fs_image s (unat ind) = Some en"
      using image_readableD [OF assms, of "unat ind"] by (auto simp add: read_block_def s_def)
    have "bad_block_findings s i = ds @ concat (map (entry_findings s i en) [0..<1024])"
      using valid bp good en(2)
      by (simp add: bad_block_findings_def indirect_findings_def ds_def ind_def [symmetric]
          del: upt_rec_numeral)
    moreover have "entry_findings (snd (add_findings ds cs)) i en = entry_findings s i en"
      by (simp add: fun_eq_iff entry_findings_def s_def)
    ultimately show ?thesis using good en(1)
      by (simp add: unfold fold_check_entry s_def del: upt_rec_numeral)
  qed
qed

lemma check_bad_blocks_add:
  assumes "image_readable s"
  shows "check_bad_blocks s =
     Some (add_findings (concat (map (bad_block_findings s) [0..<80])) (True, s))"
  unfolding check_bad_blocks_def
  using for_each_add_findings [where f = check_inode_blocks and g = bad_block_findings
      and P = image_readable and cs = "(True, s)" and xs = "[0..<80]"] assms
  by (simp add: check_inode_blocks_add)

lemma Bad_direct_in_findings:
  "Bad_direct i j v \<in> set (concat (map (bad_block_findings s) xs)) \<longleftrightarrow>
     i \<in> set xs \<and> 0 < nlink (inodes s i) \<and> dtime (inodes s i) = 0 \<and> j < 12 \<and>
     v = direct_blocks (inodes s i) j \<and> bad_pointer (data_block_start (superblock s)) v"
proof -
  have 1: "Bad_direct i j v \<notin> set (indirect_findings s k)" for k
    by (auto simp add: indirect_findings_def entry_findings_def Let_def split: option.splits)
  have 2: "Bad_direct i j v \<in> set (concat (map (direct_findings s k) [0..<12])) \<longleftrightarrow>
      k = i \<and> j < 12 \<and> v = direct_blocks (inodes s i) j \<and>
      bad_pointer (data_block_start (superblock s)) v" for k
    by (auto simp add: direct_findings_def simp del: upt_rec_numeral)
  show ?thesis
    unfolding set_concat set_map bad_block_findings_def
    by (auto simp add: 1 2 simp del: upt_rec_numeral set_concat)
qed

lemma bad_direct_cycle:
  assumes "image_readable s" and "i < 80" and "is_valid_inode s i"
    and "direct_blocks (inodes s i) 0 = 64"
  shows "\<exists>c s1 s2 c3 s3.
     check_bad_blocks s = Some (c, s1) \<and> \<not> c \<and>
     Bad_direct i 0 64 \<in> set (drop (length (stdout s)) (stdout s1)) \<and>
     fix_errors s1 = Some s2 \<and>
     direct_blocks (inodes s2 i) 0 = 0 \<and>
     get_bit (data_bitmap s2) 56 = get_bit (data_bitmap s) 56 \<and>
     check_bad_blocks s2 = Some (c3, s3) \<and>
     direct_blocks (inodes s3 i) 0 = 0 \<and>
     (\<forall>v. Bad_direct i 0 v \<notin> set (drop (length (stdout s2)) (stdout s3)))"
proof -
  define F where "F = concat (map (bad_block_findings s) [0..<80])"
  define s1 where "s1 = snd (add_findings F (True, s))"
  have valid: "0 < nlink (inodes s i) \<and> dtime (inodes s i) = 0"
    using assms(3) by (simp add: is_valid_inode_def)
  have inF: "Bad_direct i 0 64 \<in> set F"
    unfolding F_def Bad_direct_in_findings using assms(2,4) valid
    by (simp add: bad_pointer_def)
  then have "F \<noteq> []" by auto
  then have run1: "check_bad_blocks s = Some (False, s1)"
    unfolding check_bad_blocks_add [OF assms(1)] F_def [symmetric] s1_def
    by (simp add: add_findings_def)
  have out1: "drop (length (stdout s)) (stdout s1) = F" by (simp add: s1_def)
  have s1: "inodes s1 = inodes s" "data_bitmap s1 = data_bitmap s" "image_readable s1"
    using assms(1) by (simp_all add: s1_def)
  obtain bmi bmd e img ws where fx: "fix_errors s1 =
      Some (s1\<lparr>superblock := repaired_superblock (superblock s1),
              inode_bitmap := bmi, data_bitmap := bmd,
              inodes := (\<lambda>k. if k < 80 then repaired_inode 8 (inodes s1 k) else inodes s1 k),
              errors_fixed := e, fs_image := img,
              writes := writes s1 @ ws @
                W_superblock 0 # W_inode_bitmap 4096 # W_data_bitmap 8192 #
                map (\<lambda>i. W_inode (12288 + 256 * i) i) [0..<80]\<rparr>)"
    and img: "image_repaired 8 (fs_image s1) img"
    and bits: "\<forall>k. get_bit bmd k =
         (if k < 56 then of_bool (block_referenced s1 (k + 8)) else get_bit (data_bitmap s1) k)"
    using fix_errors_effect [OF s1(3)] by blast
  define s2 where "s2 = s1\<lparr>superblock := repaired_superblock (superblock s1),
              inode_bitmap := bmi, data_bitmap := bmd,
              inodes := (\<lambda>k. if k < 80 then repaired_inode 8 (inodes s1 k) else inodes s1 k),
              errors_fixed := e, fs_image := img,
              writes := writes s1 @ ws @
                W_superblock 0 # W_inode_bitmap 4096 # W_data_bitmap 8192 #
                map (\<lambda>i. W_inode (12288 + 256 * i) i) [0..<80]\<rparr>"
  have s2: "fs_image s2 = img" "data_bitmap s2 = bmd"
    "inodes s2 i = repaired_inode 8 (inodes s i)"
    using assms(2) by (simp_all add: s2_def s1(1))
  have slot: "direct_blocks (inodes s2 i) 0 = 0"
    using valid assms(4) by (simp add: s2(3) repaired_inode_def bad_pointer_def)
  have bit: "get_bit (data_bitmap s2) 56 = get_bit (data_bitmap s) 56"
    using bits by (simp add: s2(2) s1(2))
  have readable2: "image_readable s2"
    using img s1(3) s2(1) by (rule image_repaired_readable)
  define F2 where "F2 = concat (map (bad_block_findings s2) [0..<80])"
  define cs3 where "cs3 = add_findings F2 (True, s2)"
  have run2: "check_bad_blocks s2 = Some (fst cs3, snd cs3)"
    unfolding check_bad_blocks_add [OF readable2] F2_def [symmetric] cs3_def
    by (simp only: prod.collapse)
  have "inodes (snd cs3) = inodes s2" "drop (length (stdout s2)) (stdout (snd cs3)) = F2"
    by (simp_all add: cs3_def)
  moreover have "Bad_direct i 0 v \<notin> set F2" for v
    unfolding F2_def Bad_direct_in_findings using slot by auto
  ultimately have "direct_blocks (inodes (snd cs3) i) 0 = 0"
    "\<forall>v. Bad_direct i 0 v \<notin> set (drop (length (stdout s2)) (stdout (snd cs3)))"
    using slot by simp_all
  with run1 inF out1 fx [folded s2_def] slot bit run2 show ?thesis by blast
qed

lemma past_end_state_facts:
  "image_readable past_end_state" "is_valid_inode past_end_state 0"
  "direct_blocks (inodes past_end_state 0) 0 = 64"
  "get_bit (data_bitmap past_end_state) 56 = 1"
  by (simp_all add: past_end_state_def clean_state_def free_inode_def image_readable_def
      list_all_iff is_valid_inode_def get_bit_eq)

section \<open>Lemmas: the reference tracker and the data-bitmap validator\<close>

lemma small_word_sint: "(v :: u32) < 64 \<longleftrightarrow> 0 \<le> sint v \<and> sint v < 64"
proof
  assume "v < 64"
  then have "uint v < 64" by (simp add: word_less_def)
  have "(- (2 ^ 31) :: int) \<le> 0" "(64 :: int) \<le> 2 ^ 31" by simp_all
  with \<open>uint v < 64\<close> have "- (2 ^ 31) \<le> uint v" "uint v < 2 ^ 31"
    using uint_ge_0 [of v] by linarith+
  then have "signed_take_bit 31 (uint v) = uint v"
    by (rule signed_take_bit_int_eq_self)
  then have "sint v = uint v" by (simp add: sint_uint)
  with \<open>uint v < 64\<close> show "0 \<le> sint v \<and> sint v < 64" by simp
next
  assume a: "0 \<le> sint v \<and> sint v < 64"
  then have "0 \<le> sint v" "sint v < 2 ^ 32" by simp_all
  then have "take_bit 32 (sint v) = sint v"
    by (rule take_bit_int_eq_self)
  then have "uint v = sint v" using uint_sint [of v] by simp
  with a show "v < 64" by (simp add: word_less_def)
qed

lemma tracked_unat: "tracked start v \<Longrightarrow> unat v < 64"
  by (simp add: tracked_def word_less_nat_alt)

lemma mark_if_nonzero_track:
  "mark_if_nonzero i v s =
     (if wild (data_block_start (superblock s)) v then None
      else Some (s\<lparr>block_referenced :=
                     fst (track (data_block_start (superblock s)) (i, v)
                            (block_referenced s, block_referenced_by s)),
                   block_referenced_by :=
                     snd (track (data_block_start (superblock s)) (i, v)
                            (block_referenced s, block_referenced_by s))\<rparr>))"
proof -
  define start where "start = data_block_start (superblock s)"
  consider (zero) "v = 0" | (skip) "v \<noteq> 0" "v < start \<or> 64 \<le> sint v"
    | (neg) "v \<noteq> 0" "\<not> (v < start \<or> 64 \<le> sint v)" "sint v < 0"
    | (mark) "v \<noteq> 0" "\<not> (v < start \<or> 64 \<le> sint v)" "\<not> sint v < 0"
    by blast
  then show ?thesis
  proof cases
    case zero
    then show ?thesis by (simp add: mark_if_nonzero_def wild_def track_def tracked_def)
  next
    case skip
    then have "\<not> wild start v" "\<not> tracked start v"
      using small_word_sint [of v] by (auto simp add: wild_def tracked_def)
    then show ?thesis using skip
      by (simp add: mark_if_nonzero_def mark_block_referenced_def track_def start_def)
  next
    case neg
    then have "wild start v" by (simp add: wild_def not_less)
    then show ?thesis using neg
      by (simp add: mark_if_nonzero_def mark_block_referenced_def start_def)
  next
    case mark
    then have "\<not> wild start v" "tracked start v"
      using small_word_sint [of v] by (auto simp add: wild_def tracked_def not_less)
    then show ?thesis using mark
      by (simp add: mark_if_nonzero_def mark_block_referenced_def track_def start_def)
  qed
qed

lemma for_each_mark:
  assumes "\<And>br bb j. g (s\<lparr>block_referenced := br, block_referenced_by := bb\<rparr>) j = g s j"
  shows "for_each xs (\<lambda>j t. mark_if_nonzero i (g t j) t) s =
     (if list_ex (wild (data_block_start (superblock s))) (map (g s) xs) then None
      else Some (s\<lparr>block_referenced :=
                     fst (fold (track (data_block_start (superblock s))) (map (\<lambda>j. (i, g s j)) xs)
                            (block_referenced s, block_referenced_by s)),
                   block_referenced_by :=
                     snd (fold (track (data_block_start (superblock s))) (map (\<lambda>j. (i, g s j)) xs)
                            (block_referenced s, block_referenced_by s))\<rparr>))"
  using assms
proof (induction xs arbitrary: s)
  case Nil
  show ?case by simp
next
  case (Cons x xs)
  define start where "start = data_block_start (superblock s)"
  show ?case
  proof (cases "wild start (g s x)")
    case True
    then show ?thesis by (simp add: mark_if_nonzero_track start_def)
  next
    case False
    define r where "r = track start (i, g s x) (block_referenced s, block_referenced_by s)"
    define t where "t = s\<lparr>block_referenced := fst r, block_referenced_by := snd r\<rparr>"
    have step: "mark_if_nonzero i (g s x) s = Some t"
      using False by (simp add: mark_if_nonzero_track start_def t_def r_def)
    have t: "data_block_start (superblock t) = start" "block_referenced t = fst r"
      "block_referenced_by t = snd r" "g t = g s"
      by (simp_all add: t_def start_def fun_eq_iff Cons.prems)
    have "g (t\<lparr>block_referenced := br, block_referenced_by := bb\<rparr>) j = g t j" for br bb j
      by (simp add: t_def Cons.prems)
    note IH = Cons.IH [OF this]
    show ?thesis
      using step False unfolding start_def [symmetric]
      by (simp add: IH t r_def [symmetric]) (simp add: t_def)
  qed
qed

lemma mark_block_referenced_nonzero:
  "v \<noteq> 0 \<Longrightarrow> mark_block_referenced v i s = mark_if_nonzero i v s"
  by (simp add: mark_if_nonzero_def)

lemma mark_inode_blocks_track:
  "mark_inode_blocks i s =
     (case tracker_pointers s i of
        None \<Rightarrow> None
      | Some vs \<Rightarrow>
          if list_ex (wild (data_block_start (superblock s))) vs then None
          else Some (s\<lparr>block_referenced :=
                         fst (fold (track (data_block_start (superblock s))) (map (Pair i) vs)
                                (block_referenced s, block_referenced_by s)),
                       block_referenced_by :=
                         snd (fold (track (data_block_start (superblock s))) (map (Pair i) vs)
                                (block_referenced s, block_referenced_by s))\<rparr>))"
proof (cases "is_valid_inode s i")
  case False
  then show ?thesis
    by (auto simp add: mark_inode_blocks_def tracker_pointers_def is_valid_inode_def)
next
  case True
  define start where "start = data_block_start (superblock s)"
  define d where "d = direct_blocks (inodes s i)"
  define ind where "ind = indirect_block (inodes s i)"
  define r0 where "r0 = (block_referenced s, block_referenced_by s)"
  define r1 where "r1 = fold (track start) (map (Pair i) (map d [0..<12])) r0"
  define t1 where "t1 = s\<lparr>block_referenced := fst r1, block_referenced_by := snd r1\<rparr>"
  have valid: "0 < nlink (inodes s i) \<and> dtime (inodes s i) = 0"
    using True by (simp add: is_valid_inode_def)
  have direct: "for_each [0..<12] (\<lambda>j t. mark_if_nonzero i (direct_blocks (inodes t i) j) t) s =
      (if list_ex (wild start) (map d [0..<12]) then None else Some t1)"
    using for_each_mark [of "\<lambda>t j. direct_blocks (inodes t i) j" s "[0..<12]" i]
    unfolding start_def d_def r0_def r1_def t1_def by (simp add: comp_def)
  have t1: "indirect_block (inodes t1 i) = ind" "data_block_start (superblock t1) = start"
    "block_referenced t1 = fst r1" "block_referenced_by t1 = snd r1"
    by (simp_all add: t1_def ind_def start_def)
  show ?thesis
  proof (cases "list_ex (wild start) (map d [0..<12])")
    case True
    then have "mark_inode_blocks i s = None"
      using \<open>is_valid_inode s i\<close> by (simp add: mark_inode_blocks_def direct)
    moreover have "list_ex (wild start) (map d [0..<12] @ ind # map en [0..<1024])" for en
      using True by simp
    ultimately show ?thesis
      using valid True unfolding start_def [symmetric]
      by (simp add: tracker_pointers_def d_def [symmetric] ind_def [symmetric]
          split: option.splits)
  next
    case no_wild: False
    show ?thesis
    proof (cases "ind = 0")
      case True
      then have "mark_inode_blocks i s = Some t1"
        using \<open>is_valid_inode s i\<close> no_wild by (simp add: mark_inode_blocks_def direct t1)
      moreover have "tracker_pointers s i = Some (map d [0..<12])"
        using valid True by (simp add: tracker_pointers_def d_def ind_def)
      ultimately show ?thesis
        using no_wild unfolding start_def [symmetric]
        by (simp add: t1_def r1_def r0_def)
    next
      case False
      define r2 where "r2 = track start (i, ind) r1"
      define t2 where "t2 = s\<lparr>block_referenced := fst r2, block_referenced_by := snd r2\<rparr>"
      have ind_step: "mark_block_referenced ind i t1 =
          (if wild start ind then None else Some t2)"
        using False
        by (simp add: mark_block_referenced_nonzero mark_if_nonzero_track t1 r2_def t2_def)
           (simp add: t1_def)
      have t2: "read_block t2 ind = read_block s ind" "data_block_start (superblock t2) = start"
        "block_referenced t2 = fst r2" "block_referenced_by t2 = snd r2"
        "indirect_block (inodes t2 i) = ind"
        by (simp_all add: t2_def read_block_def start_def ind_def)
      have entries: "for_each [0..<1024] (\<lambda>j t. mark_if_nonzero i (en j) t) t2 =
        (if list_ex (wild start) (map en [0..<1024]) then None
         else Some (s\<lparr>block_referenced :=
                          fst (fold (track start) (map (Pair i) (map en [0..<1024])) r2),
                       block_referenced_by :=
                          snd (fold (track start) (map (Pair i) (map en [0..<1024])) r2)\<rparr>))"
        for en
        using for_each_mark [of "\<lambda>t j. en j" t2 "[0..<1024]" i]
        unfolding t2(2,3,4) by (simp add: comp_def del: upt_rec_numeral) (simp add: t2_def)
      have run: "mark_inode_blocks i s =
          (if wild start ind then None
           else case read_block s ind of
                  None \<Rightarrow> None
                | Some en \<Rightarrow>
                    if list_ex (wild start) (map en [0..<1024]) then None
                    else Some (s\<lparr>block_referenced :=
                          fst (fold (track start) (map (Pair i) (map en [0..<1024])) r2),
                       block_referenced_by :=
                          snd (fold (track start) (map (Pair i) (map en [0..<1024])) r2)\<rparr>))"
        using \<open>is_valid_inode s i\<close> no_wild False
        by (simp add: mark_inode_blocks_def direct t1 ind_step t2 entries
            del: upt_rec_numeral split: option.splits)
      have ptrs: "tracker_pointers s i =
          (case read_block s ind of None \<Rightarrow> None
           | Some en \<Rightarrow> Some (map d [0..<12] @ ind # map en [0..<1024]))"
        using valid False
        by (simp add: tracker_pointers_def d_def ind_def del: upt_rec_numeral
            cong: option.case_cong)
      show ?thesis
        unfolding run ptrs start_def [symmetric] using no_wild
        by (cases "read_block s ind")
           (simp_all add: r2_def r1_def r0_def del: upt_rec_numeral)
    qed
  qed
qed

lemma tracker_pointers_frame [simp]:
  "tracker_pointers (s\<lparr>block_referenced := br, block_referenced_by := bb\<rparr>) i =
     tracker_pointers s i"
  by (simp add: tracker_pointers_def read_block_def del: upt_rec_numeral
      cong: if_cong option.case_cong)

lemma tracker_claims_frame [simp]:
  "tracker_claims (s\<lparr>block_referenced := br, block_referenced_by := bb\<rparr>) xs =
     tracker_claims s xs"
  by (induction xs) (simp_all cong: option.case_cong)

lemma list_ex_wild_pairs:
  "list_ex (\<lambda>c. wild start (snd c)) (map (Pair i) vs) = list_ex (wild start) vs"
  by (simp add: list_ex_iff)

lemma for_each_mark_inodes:
  "for_each xs mark_inode_blocks s =
     (case tracker_claims s xs of
        None \<Rightarrow> None
      | Some cl \<Rightarrow>
          if list_ex (\<lambda>c. wild (data_block_start (superblock s)) (snd c)) cl then None
          else Some (s\<lparr>block_referenced :=
                         fst (fold (track (data_block_start (superblock s))) cl
                                (block_referenced s, block_referenced_by s)),
                       block_referenced_by :=
                         snd (fold (track (data_block_start (superblock s))) cl
                                (block_referenced s, block_referenced_by s))\<rparr>))"
proof (induction xs arbitrary: s)
  case Nil
  show ?case by simp
next
  case (Cons x xs)
  define start where "start = data_block_start (superblock s)"
  show ?case
  proof (cases "tracker_pointers s x")
    case None
    then show ?thesis by (simp add: mark_inode_blocks_track)
  next
    case (Some vs)
    show ?thesis
    proof (cases "list_ex (wild start) vs")
      case True
      then have "mark_inode_blocks x s = None"
        by (simp add: mark_inode_blocks_track Some start_def)
      then show ?thesis using True Some
        by (cases "tracker_claims s xs") (simp_all add: list_ex_wild_pairs start_def)
    next
      case False
      define r where "r = fold (track start) (map (Pair x) vs)
                                (block_referenced s, block_referenced_by s)"
      define t where "t = s\<lparr>block_referenced := fst r, block_referenced_by := snd r\<rparr>"
      have step: "mark_inode_blocks x s = Some t"
        using False by (simp add: mark_inode_blocks_track Some start_def t_def r_def)
      have t: "data_block_start (superblock t) = start" "tracker_claims t xs = tracker_claims s xs"
        "block_referenced t = fst r" "block_referenced_by t = snd r"
        by (simp_all add: t_def start_def)
      show ?thesis
      proof (cases "tracker_claims s xs")
        case None
        then show ?thesis using step Some by (simp add: Cons.IH t)
      next
        case cl: (Some cl)
        show ?thesis
          using step Some cl False unfolding start_def [symmetric]
          by (simp add: Cons.IH t list_ex_wild_pairs r_def) (simp add: t_def)
      qed
    qed
  qed
qed

lemma fold_reset_reference:
  "fold reset_reference xs s =
     s\<lparr>block_referenced := (\<lambda>b. if b \<in> set xs then False else block_referenced s b),
       block_referenced_by := (\<lambda>b. if b \<in> set xs then - 1 else block_referenced_by s b)\<rparr>"
proof (induction xs arbitrary: s)
  case Nil
  show ?case by simp
next
  case (Cons x xs)
  have "fold reset_reference (x # xs) s = fold reset_reference xs (reset_reference x s)"
    by simp
  also have "\<dots> = (reset_reference x s)\<lparr>
       block_referenced := (\<lambda>b. if b \<in> set xs then False
          else block_referenced (reset_reference x s) b),
       block_referenced_by := (\<lambda>b. if b \<in> set xs then - 1
          else block_referenced_by (reset_reference x s) b)\<rparr>"
    by (rule Cons.IH)
  also have "\<dots> = s\<lparr>
       block_referenced := (\<lambda>b. if b \<in> set (x # xs) then False else block_referenced s b),
       block_referenced_by := (\<lambda>b. if b \<in> set (x # xs) then - 1 else block_referenced_by s b)\<rparr>"
    by (rule fsck_state.equality) (auto simp add: reset_reference_def fun_eq_iff)
  finally show ?case .
qed

lemma reset_all_references:
  "fold reset_reference [0..<64] s =
     s\<lparr>block_referenced := (\<lambda>b. if b < 64 then False else block_referenced s b),
       block_referenced_by := (\<lambda>b. if b < 64 then - 1 else block_referenced_by s b)\<rparr>"
  unfolding fold_reset_reference by simp

lemma check_data_block_add:
  "check_data_block i cs = add_findings (data_block_findings (snd cs) i) cs"
  by (auto simp add: check_data_block_def data_block_findings_def Let_def flag_error_add
      get_bit_eq)

lemma data_block_findings_frame [simp]:
  "data_block_findings (snd (add_findings ms cs)) i = data_block_findings (snd cs) i"
  by (simp add: data_block_findings_def Let_def cong: if_cong)

lemma fold_check_data_block:
  "fold check_data_block xs cs =
     add_findings (concat (map (data_block_findings (snd cs)) xs)) cs"
  by (rule fold_add_findings [where g = data_block_findings])
     (simp_all add: check_data_block_add)

lemma data_region_tracked_state [simp]: "data_region (tracked_state s cl) = data_region s"
  by (simp add: tracked_state_def data_region_def Let_def)

lemma check_data_bitmap_eq:
  "check_data_bitmap_consistency s =
     (case tracker_claims s [0..<80] of
        None \<Rightarrow> None
      | Some cl \<Rightarrow>
          if list_ex (\<lambda>c. wild (data_block_start (superblock s)) (snd c)) cl then None
          else (case data_region s of
                  None \<Rightarrow> None
                | Some region \<Rightarrow>
                    Some (add_findings
                           (concat (map (data_block_findings (tracked_state s cl)) region))
                           (True, tracked_state s cl))))"
proof -
  define s0 where "s0 = fold reset_reference [0..<64] s"
  have s0: "s0 = s\<lparr>block_referenced := (\<lambda>b. if b < 64 then False else block_referenced s b),
       block_referenced_by := (\<lambda>b. if b < 64 then - 1 else block_referenced_by s b)\<rparr>"
    unfolding s0_def by (rule reset_all_references)
  have frame: "tracker_claims s0 [0..<80] = tracker_claims s [0..<80]"
    "data_block_start (superblock s0) = data_block_start (superblock s)"
    by (simp_all add: s0)
  have region: "data_region (s0\<lparr>block_referenced := br, block_referenced_by := bb\<rparr>) = data_region s"
    for br bb by (simp add: data_region_def s0)
  have ts: "s0\<lparr>block_referenced := fst (fold (track (data_block_start (superblock s))) cl
               (block_referenced s0, block_referenced_by s0)),
             block_referenced_by := snd (fold (track (data_block_start (superblock s))) cl
               (block_referenced s0, block_referenced_by s0))\<rparr> = tracked_state s cl" for cl
    by (simp add: tracked_state_def s0 Let_def)
  show ?thesis
    unfolding check_data_bitmap_consistency_def Let_def s0_def [symmetric]
      for_each_mark_inodes frame
    by (cases "tracker_claims s [0..<80]")
       (simp_all add: region ts fold_check_data_block split: option.splits)
qed

section \<open>Lemmas: the duplicate validator\<close>

lemma stored_store_reference:
  assumes "store_reference b i r = Some r'"
  shows "stored r' = (stored r)(b := stored r b @ [int i])" and "snd r b < 80"
    and "snd r' = (snd r)(b := snd r b + 1)"
proof -
  from assms have lt: "snd r b < 80"
    and r': "r' = ((fst r)(b := (fst r b)(snd r b := int i)), (snd r)(b := snd r b + 1))"
    by (auto simp add: store_reference_def Let_def split: if_splits)
  show "snd r b < 80" by (rule lt)
  show "snd r' = (snd r)(b := snd r b + 1)" by (simp add: r')
  show "stored r' = (stored r)(b := stored r b @ [int i])"
    by (auto simp add: fun_eq_iff stored_def r')
qed

lemma store_reference_defined: "snd r b < 80 \<Longrightarrow> \<exists>r'. store_reference b i r = Some r'"
  by (simp add: store_reference_def Let_def)

lemma store_reference_None: "store_reference b i r = None \<longleftrightarrow> 80 \<le> snd r b"
  by (auto simp add: store_reference_def Let_def)

text \<open>Recording a list of claims: the pure counterpart of the loops.\<close>

lemma for_each_count:
  "for_each xs (\<lambda>j. count_reference i (g j)) r =
     for_each (map (\<lambda>j. (i, g j)) xs) (\<lambda>c. count_reference (fst c) (snd c)) r"
  by (induction xs arbitrary: r) (simp_all split: option.splits)

lemma for_each_append:
  "for_each (xs @ ys) f r = Option.bind (for_each xs f r) (for_each ys f)"
  by (induction xs arbitrary: r) (simp_all split: option.splits)

lemma count_reference_counted:
  "counted v \<Longrightarrow> count_reference i v r = store_reference (unat v) i r"
  by (simp add: count_reference_def counted_def)

lemma count_inode_references_eq:
  "count_inode_references s i r =
     (case duplicate_pointers s i of
        None \<Rightarrow> None
      | Some vs \<Rightarrow> for_each (map (Pair i) vs) (\<lambda>c. count_reference (fst c) (snd c)) r)"
proof (cases "is_valid_inode s i")
  case False
  then show ?thesis
    by (auto simp add: count_inode_references_def duplicate_pointers_def is_valid_inode_def)
next
  case True
  define d where "d = direct_blocks (inodes s i)"
  define ind where "ind = indirect_block (inodes s i)"
  define f where "f = (\<lambda>c :: nat \<times> u32. count_reference (fst c) (snd c))"
  have valid: "0 < nlink (inodes s i) \<and> dtime (inodes s i) = 0"
    using True by (simp add: is_valid_inode_def)
  have direct: "for_each [0..<12] (\<lambda>j. count_reference i (d j)) r =
      for_each (map (Pair i) (map d [0..<12])) f r" for r
    unfolding for_each_count f_def by (simp add: comp_def)
  have entries: "for_each [0..<1024] (\<lambda>j. count_reference i (en j)) r =
      for_each (map (Pair i) (map en [0..<1024])) f r" for r en
    unfolding for_each_count f_def by (simp add: comp_def del: upt_rec_numeral)
  show ?thesis
  proof (cases "counted ind")
    case False
    then have "duplicate_pointers s i = Some (map d [0..<12])"
      using valid by (simp add: duplicate_pointers_def d_def ind_def)
    moreover have "count_inode_references s i r = for_each [0..<12] (\<lambda>j. count_reference i (d j)) r"
      using True False
      by (cases "for_each [0..<12] (\<lambda>j. count_reference i (d j)) r")
         (auto simp add: count_inode_references_def d_def ind_def counted_def)
    ultimately show ?thesis by (simp add: direct f_def)
  next
    case counted: True
    show ?thesis
    proof (cases "read_block s ind")
      case None
      then have "duplicate_pointers s i = None"
        using valid counted by (simp add: duplicate_pointers_def ind_def)
      moreover have "count_inode_references s i r = None"
        using True counted None
        by (cases "for_each [0..<12] (\<lambda>j. count_reference i (d j)) r";
            cases "store_reference (unat ind) i (the (for_each [0..<12] (\<lambda>j. count_reference i (d j)) r))")
           (simp_all add: count_inode_references_def d_def [symmetric] ind_def [symmetric]
              counted_def del: upt_rec_numeral)
      ultimately show ?thesis by simp
    next
      case (Some en)
      then have ptrs: "duplicate_pointers s i = Some (map d [0..<12] @ ind # map en [0..<1024])"
        using valid counted
        by (simp add: duplicate_pointers_def ind_def d_def del: upt_rec_numeral)
      have "count_inode_references s i r =
          Option.bind (for_each [0..<12] (\<lambda>j. count_reference i (d j)) r)
            (\<lambda>r. Option.bind (store_reference (unat ind) i r)
              (\<lambda>r. for_each [0..<1024] (\<lambda>j. count_reference i (en j)) r))"
        using True counted Some
        by (simp add: count_inode_references_def d_def [symmetric] ind_def [symmetric]
            counted_def del: upt_rec_numeral)
      also have "\<dots> = for_each (map (Pair i) (map d [0..<12] @ ind # map en [0..<1024])) f r"
        unfolding direct entries map_append list.map for_each_append
        by (cases "for_each (map (Pair i) (map d [0..<12])) f r")
           (simp_all add: f_def count_reference_counted [OF counted] del: upt_rec_numeral
              split: option.splits)
      finally show ?thesis by (simp add: ptrs f_def del: upt_rec_numeral)
    qed
  qed
qed

lemma for_each_count_inodes:
  "for_each xs (count_inode_references s) r =
     (case duplicate_claims s xs of
        None \<Rightarrow> None
      | Some cl \<Rightarrow> for_each cl (\<lambda>c. count_reference (fst c) (snd c)) r)"
proof (induction xs arbitrary: r)
  case Nil
  show ?case by simp
next
  case (Cons x xs)
  define f where "f = (\<lambda>c :: nat \<times> u32. count_reference (fst c) (snd c))"
  have step: "for_each (x # xs) (count_inode_references s) r =
      (case count_inode_references s x r of
         None \<Rightarrow> None
       | Some r1 \<Rightarrow> for_each xs (count_inode_references s) r1)"
    by simp
  have IH: "for_each xs (count_inode_references s) r1 =
      (case duplicate_claims s xs of None \<Rightarrow> None | Some cl \<Rightarrow> for_each cl f r1)" for r1
    unfolding f_def by (rule Cons.IH)
  have first: "count_inode_references s x r =
      (case duplicate_pointers s x of None \<Rightarrow> None | Some vs \<Rightarrow> for_each (map (Pair x) vs) f r)"
    unfolding f_def by (rule count_inode_references_eq)
  show ?case
    unfolding step first IH f_def [symmetric]
    by (cases "duplicate_pointers s x"; cases "duplicate_claims s xs")
       (simp_all add: for_each_append split: option.splits)
qed

lemma claimants_Cons:
  "claimants (c # cl) b =
     (if counted (snd c) \<and> unat (snd c) = b then int (fst c) # claimants cl b
      else claimants cl b)"
  by (simp add: claimants_def)

lemma record_claims:
  assumes "for_each cl (\<lambda>c. count_reference (fst c) (snd c)) r = Some r'"
  shows "stored r' b = stored r b @ claimants cl b \<and>
         snd r' b = snd r b + length (claimants cl b) \<and>
         (snd r b \<le> 80 \<longrightarrow> snd r' b \<le> 80)"
  using assms
proof (induction cl arbitrary: r)
  case Nil
  then show ?case by (simp add: claimants_def)
next
  case (Cons c cl)
  from Cons.prems obtain r1 where r1: "count_reference (fst c) (snd c) r = Some r1"
    and rest: "for_each cl (\<lambda>c. count_reference (fst c) (snd c)) r1 = Some r'"
    by (auto split: option.splits)
  note IH = Cons.IH [OF rest]
  show ?case
  proof (cases "counted (snd c)")
    case True
    then have st: "store_reference (unat (snd c)) (fst c) r = Some r1"
      using r1 by (simp add: count_reference_counted)
    from stored_store_reference [OF st] IH True
    show ?thesis by (auto simp add: claimants_Cons)
  next
    case False
    then have "r1 = r" using r1 by (auto simp add: count_reference_def counted_def)
    with IH False show ?thesis by (auto simp add: claimants_Cons)
  qed
qed

lemma record_claims_defined:
  assumes "\<And>b. snd r b + length (claimants cl b) \<le> 80"
  shows "\<exists>r'. for_each cl (\<lambda>c. count_reference (fst c) (snd c)) r = Some r'"
  using assms
proof (induction cl arbitrary: r)
  case Nil
  show ?case by simp
next
  case (Cons c cl)
  show ?case
  proof (cases "counted (snd c)")
    case True
    have "snd r (unat (snd c)) < 80"
      using Cons.prems [of "unat (snd c)"] True by (simp add: claimants_Cons)
    then obtain r1 where r1: "store_reference (unat (snd c)) (fst c) r = Some r1"
      using store_reference_defined by blast
    have "snd r1 b + length (claimants cl b) \<le> 80" for b
      using Cons.prems [of b] True stored_store_reference(3) [OF r1]
      by (simp add: claimants_Cons split: if_splits)
    from Cons.IH [OF this] r1 True show ?thesis
      by (simp add: count_reference_counted)
  next
    case False
    then have "count_reference (fst c) (snd c) r = Some r"
      by (auto simp add: count_reference_def counted_def)
    moreover have "snd r b + length (claimants cl b) \<le> 80" for b
      using Cons.prems [of b] False by (simp add: claimants_Cons)
    ultimately show ?thesis using Cons.IH [of r] by simp
  qed
qed

lemma claimants_beyond: "64 \<le> b \<Longrightarrow> claimants cl b = []"
proof -
  assume "64 \<le> b"
  have "\<not> (counted v \<and> unat v = b)" for v :: u32
    using \<open>64 \<le> b\<close> by (auto simp add: counted_def word_less_nat_alt)
  then show ?thesis by (simp add: claimants_def)
qed

lemma too_many_claimants:
  "list_ex (\<lambda>b. 80 < length (claimants cl b)) [0..<64] \<longleftrightarrow> (\<exists>b. 80 < length (claimants cl b))"
proof -
  have "b < 64" if "80 < length (claimants cl b)" for b
    using that claimants_beyond [of b cl] by (cases "b < 64") auto
  then show ?thesis unfolding list_ex_iff set_upt by auto
qed

lemma report_duplicate_add:
  "report_duplicate r b cs =
     add_findings (if 1 < snd r b then [Block_multiply_referenced b (stored r b)] else []) cs"
  by (simp add: report_duplicate_def stored_def flag_error_add)

lemma fold_report_duplicate:
  "fold (report_duplicate r) xs cs =
     add_findings
       (concat (map (\<lambda>b. if 1 < snd r b then [Block_multiply_referenced b (stored r b)] else []) xs))
       cs"
  by (rule fold_add_findings
        [where g = "\<lambda>s b. if 1 < snd r b then [Block_multiply_referenced b (stored r b)] else []"])
     (simp_all add: report_duplicate_add)

lemma check_duplicate_blocks_eq:
  "check_duplicate_blocks s =
     (case duplicate_claims s [0..<80] of
        None \<Rightarrow> None
      | Some cl \<Rightarrow>
          if list_ex (\<lambda>b. 80 < length (claimants cl b)) [0..<64] then None
          else (case data_region s of
                  None \<Rightarrow> None
                | Some region \<Rightarrow>
                    Some (add_findings (concat (map (duplicate_findings cl) region)) (True, s))))"
proof (cases "duplicate_claims s [0..<80]")
  case None
  then show ?thesis by (simp add: check_duplicate_blocks_def for_each_count_inodes)
next
  case (Some cl)
  define f where "f = (\<lambda>c :: nat \<times> u32. count_reference (fst c) (snd c))"
  define r0 where "r0 = ((\<lambda>_ _. 0, \<lambda>_. 0) :: references)"
  have walk: "for_each [0..<80] (count_inode_references s) r0 = for_each cl f r0"
    by (simp add: for_each_count_inodes Some f_def)
  have r0: "snd r0 b = 0" "stored r0 b = []" for b
    by (simp_all add: r0_def stored_def)
  show ?thesis
  proof (cases "\<exists>b. 80 < length (claimants cl b)")
    case True
    then obtain b where b: "80 < length (claimants cl b)" ..
    have "for_each cl f r0 = None"
    proof (rule ccontr)
      assume "for_each cl f r0 \<noteq> None"
      then obtain r' where "for_each cl f r0 = Some r'" by auto
      from record_claims [OF this [unfolded f_def], of b] b show False
        by (simp add: r0)
    qed
    then show ?thesis
      using True Some unfolding too_many_claimants r0_def
      by (simp add: check_duplicate_blocks_def walk [unfolded r0_def])
  next
    case False
    then have "snd r0 b + length (claimants cl b) \<le> 80" for b
      by (simp add: r0 not_less)
    from record_claims_defined [OF this] obtain r' where r': "for_each cl f r0 = Some r'"
      unfolding f_def by blast
    have "snd r' b = length (claimants cl b)" "stored r' b = claimants cl b" for b
      using record_claims [OF r' [unfolded f_def], of b] by (simp_all add: r0)
    then have "(\<lambda>b. if 1 < snd r' b then [Block_multiply_referenced b (stored r' b)] else []) =
        duplicate_findings cl"
      by (simp add: fun_eq_iff duplicate_findings_def)
    then have "fold (report_duplicate r') region (True, s) =
        add_findings (concat (map (duplicate_findings cl) region)) (True, s)" for region
      by (simp add: fold_report_duplicate)
    then show ?thesis
      using False Some unfolding too_many_claimants
      by (simp add: check_duplicate_blocks_def walk [unfolded r0_def] r' [unfolded r0_def]
          split: option.splits)
  qed
qed

section \<open>Lemmas: concrete runs of the duplicate validator\<close>

lemma upt_12: "[0..<12] = [0, 1, 2, 3, 4, 5, 6, 7, 8, 9, 10, 11]"
  by (simp add: upt_rec)

lemma duplicate_claims_unused:
  assumes "\<And>i. i \<in> set xs \<Longrightarrow> \<not> (0 < nlink (inodes s i) \<and> dtime (inodes s i) = 0)"
  shows "duplicate_claims s xs = Some []"
  using assms by (induction xs) (auto simp add: duplicate_pointers_def)

lemma upt_80: "[0..<80] = 0 # [1..<80]"
  by (simp add: upt_rec)

lemma concat_single_finding:
  "concat (map (\<lambda>b. if b = k then [x] else []) [i..<j]) = (if i \<le> k \<and> k < j then [x] else [])"
  by (induction j) auto

lemma double_reference_run:
  "check_duplicate_blocks double_reference_state =
     Some (False, double_reference_state\<lparr>stdout := [Block_multiply_referenced 9 [0, 0]],
                                         errors_found := 1\<rparr>)"
proof -
  define cl :: "(nat \<times> u32) list" where "cl = map (Pair 0) (map ((\<lambda>_. 0)(0 := 9, 1 := 9)) [0..<12])"
  have "duplicate_claims double_reference_state [1..<80] = Some []"
    by (rule duplicate_claims_unused)
       (simp add: double_reference_state_def clean_state_def free_inode_def)
  moreover have "duplicate_pointers double_reference_state 0 =
      Some (map ((\<lambda>_. 0)(0 := 9, 1 := 9)) [0..<12])"
    by (simp add: duplicate_pointers_def double_reference_state_def clean_state_def
        free_inode_def counted_def)
  ultimately have claims: "duplicate_claims double_reference_state [0..<80] = Some cl"
    unfolding upt_80 cl_def by simp
  have cls: "claimants cl = (\<lambda>b. if b = 9 then [0, 0] else [])"
    unfolding cl_def upt_12 by (simp add: claimants_def counted_def fun_eq_iff)
  have region: "data_region double_reference_state = Some [8..<64]"
    by (simp add: data_region_def double_reference_state_def clean_state_def
        clean_superblock_def)
  have none: "\<not> list_ex (\<lambda>b. 80 < length (claimants cl b)) [0..<64]"
    unfolding cls by (simp add: list_ex_iff)
  have "duplicate_findings cl = (\<lambda>b. if b = 9 then [Block_multiply_referenced 9 [0, 0]] else [])"
    by (simp add: duplicate_findings_def cls fun_eq_iff)
  then have "concat (map (duplicate_findings cl) [8..<64]) = [Block_multiply_referenced 9 [0, 0]]"
    by (simp only: concat_single_finding) simp
  then have "check_duplicate_blocks double_reference_state =
      Some (add_findings [Block_multiply_referenced 9 [0, 0]] (True, double_reference_state))"
    unfolding check_duplicate_blocks_eq claims region using none
    by (simp del: upt_rec_numeral)
  then show ?thesis
    by (simp add: add_findings_def) (simp add: double_reference_state_def clean_state_def)
qed

lemma concat_no_findings: "concat (map (\<lambda>b. []) xs) = []"
  by (induction xs) simp_all

lemma clean_state_unused: "\<not> (0 < nlink (inodes clean_state i) \<and> dtime (inodes clean_state i) = 0)"
  by (simp add: clean_state_def free_inode_def)

lemma clean_state_region: "data_region clean_state = Some [8..<64]"
  by (simp add: data_region_def clean_state_def clean_superblock_def)

section \<open>Lemmas: the five validators in sequence\<close>

lemma same_disk_refl [simp]: "same_disk s s"
  by (simp add: same_disk_def)

lemma same_disk_trans: "same_disk s t \<Longrightarrow> same_disk t u \<Longrightarrow> same_disk s u"
  by (simp add: same_disk_def)

lemma same_disk_add_findings [simp]: "same_disk s (snd (add_findings ms (c, s)))"
  by (simp add: same_disk_def)

lemma same_disk_tracked_state [simp]: "same_disk s (tracked_state s cl)"
  by (simp add: same_disk_def tracked_state_def Let_def)

lemma same_disk_print [simp]: "same_disk s (print m s)"
  by (simp add: same_disk_def print_def)

lemma same_disk_reset [simp]: "same_disk s (fold reset_reference xs s)"
  by (simp add: same_disk_def fold_reset_reference)

lemma same_disk_tracker_pointers:
  "same_disk s t \<Longrightarrow> tracker_pointers t i = tracker_pointers s i"
  by (simp add: same_disk_def tracker_pointers_def read_block_def
      cong: if_cong option.case_cong)

lemma same_disk_tracker_claims:
  "same_disk s t \<Longrightarrow> tracker_claims t xs = tracker_claims s xs"
  by (induction xs) (simp_all add: same_disk_tracker_pointers cong: option.case_cong)

lemma same_disk_duplicate_pointers:
  "same_disk s t \<Longrightarrow> duplicate_pointers t i = duplicate_pointers s i"
  by (simp add: same_disk_def duplicate_pointers_def read_block_def
      cong: if_cong option.case_cong)

lemma same_disk_duplicate_claims:
  "same_disk s t \<Longrightarrow> duplicate_claims t xs = duplicate_claims s xs"
  by (induction xs) (simp_all add: same_disk_duplicate_pointers cong: option.case_cong)

lemma same_disk_fields:
  assumes "same_disk s t"
  shows "fs_image t = fs_image s" and "superblock t = superblock s"
    and "inode_bitmap t = inode_bitmap s" and "data_bitmap t = data_bitmap s"
    and "inodes t = inodes s"
  using assms by (simp_all add: same_disk_def)

lemma same_disk_bad_block_findings:
  assumes "same_disk s t"
  shows "bad_block_findings t = bad_block_findings s"
  unfolding fun_eq_iff bad_block_findings_def direct_findings_def indirect_findings_def
    entry_findings_def same_disk_fields [OF assms]
  by simp

lemma same_disk_slot_findings: "same_disk s t \<Longrightarrow> slot_findings t = slot_findings s"
  by (simp add: same_disk_def fun_eq_iff slot_findings_def)

lemma same_disk_data_region: "same_disk s t \<Longrightarrow> data_region t = data_region s"
  by (simp add: same_disk_def data_region_def)

lemma same_disk_image_readable: "same_disk s t \<Longrightarrow> image_readable t = image_readable s"
  by (simp add: same_disk_def image_readable_def)

lemma tracked_state_add_findings:
  "tracked_state (snd (add_findings ms (c, s))) cl =
     snd (add_findings ms (c, tracked_state s cl))"
  by (simp add: tracked_state_def add_findings_def Let_def cong: if_cong)

lemma run_validators_eq:
  assumes tc: "tracker_claims s [0..<80] = Some cl"
    and wild: "\<not> list_ex (\<lambda>c. wild (data_block_start (superblock s)) (snd c)) cl"
    and region: "data_region s = Some region"
    and dc: "duplicate_claims s [0..<80] = Some dl"
    and few: "\<not> list_ex (\<lambda>b. 80 < length (claimants dl b)) [0..<64]"
    and readable: "image_readable s"
  shows "run_validators s =
     Some ((superblock_findings (superblock s) = [],
            concat (map (slot_findings s) [0..<80]) = [],
            concat (map (data_block_findings (tracked_state s cl)) region) = [],
            concat (map (duplicate_findings dl) region) = [],
            concat (map (bad_block_findings s) [0..<80]) = []),
           snd (add_findings
                  (superblock_findings (superblock s) @
                   concat (map (slot_findings s) [0..<80]) @
                   concat (map (data_block_findings (tracked_state s cl)) region) @
                   concat (map (duplicate_findings dl) region) @
                   concat (map (bad_block_findings s) [0..<80]))
                  (True, tracked_state s cl)))"
proof -
  define F1 where "F1 = superblock_findings (superblock s)"
  define F2 where "F2 = concat (map (slot_findings s) [0..<80])"
  define F3 where "F3 = concat (map (data_block_findings (tracked_state s cl)) region)"
  define F4 where "F4 = concat (map (duplicate_findings dl) region)"
  define F5 where "F5 = concat (map (bad_block_findings s) [0..<80])"
  define s1 where "s1 = snd (add_findings F1 (True, s))"
  define s2 where "s2 = snd (add_findings F2 (True, s1))"
  define s3 where "s3 = snd (add_findings F3 (True, tracked_state s2 cl))"
  define s4 where "s4 = snd (add_findings F4 (True, s3))"
  define s5 where "s5 = snd (add_findings F5 (True, s4))"
  have d1: "same_disk s s1" by (simp add: s1_def)
  have d2: "same_disk s s2"
    using d1 by (rule same_disk_trans) (simp add: s2_def)
  have d3: "same_disk s s3"
    using d2 unfolding s3_def
    by (rule same_disk_trans) (rule same_disk_trans [OF same_disk_tracked_state same_disk_add_findings])
  have d4: "same_disk s s4"
    using d3 by (rule same_disk_trans) (simp add: s4_def)
  have c1: "check_superblock s = (F1 = [], s1)"
    by (simp add: check_superblock_add F1_def s1_def add_findings_def)
  have c2: "check_inode_bitmap_consistency s1 = (F2 = [], s2)"
    by (simp add: check_inode_bitmap_add same_disk_slot_findings [OF d1] F2_def s2_def
        add_findings_def del: upt_rec_numeral)
  have t3: "data_block_findings (tracked_state s2 cl) = data_block_findings (tracked_state s cl)"
    by (simp add: s2_def s1_def tracked_state_add_findings)
       (simp add: fun_eq_iff data_block_findings_def add_findings_def Let_def cong: if_cong)
  have c3: "check_data_bitmap_consistency s2 = Some (F3 = [], s3)"
    using wild d2
    by (simp add: check_data_bitmap_eq same_disk_tracker_claims [OF d2] tc
        same_disk_data_region [OF d2] region t3 F3_def s3_def same_disk_def)
       (simp add: add_findings_def)
  have c4: "check_duplicate_blocks s3 = Some (F4 = [], s4)"
    using few
    by (simp add: check_duplicate_blocks_eq same_disk_duplicate_claims [OF d3] dc
        same_disk_data_region [OF d3] region F4_def s4_def del: upt_rec_numeral)
       (simp add: add_findings_def)
  have c5: "check_bad_blocks s4 = Some (F5 = [], s5)"
    using readable
    by (simp add: check_bad_blocks_add same_disk_image_readable [OF d4]
        same_disk_bad_block_findings [OF d4] F5_def s5_def add_findings_def
        del: upt_rec_numeral)
  have "s5 = snd (add_findings (F1 @ F2 @ F3 @ F4 @ F5) (True, tracked_state s cl))"
    by (simp add: s5_def s4_def s3_def s2_def s1_def tracked_state_add_findings)
  moreover have "run_validators s = Some ((F1 = [], F2 = [], F3 = [], F4 = [], F5 = []), s5)"
    by (simp add: run_validators_def c1 c2 c3 c4 c5)
  ultimately show ?thesis
    unfolding F1_def F2_def F3_def F4_def F5_def by simp
qed

section \<open>Lemmas: the driver\<close>

lemma tracker_claims_unused:
  assumes "\<And>i. i \<in> set xs \<Longrightarrow> \<not> (0 < nlink (inodes s i) \<and> dtime (inodes s i) = 0)"
  shows "tracker_claims s xs = Some []"
  using assms by (induction xs) (auto simp add: tracker_pointers_def)

lemma check_and_repair_repairs:
  assumes v1: "run_validators (print Checking (fold reset_reference [0..<64] s)) =
      Some ((c1, c2, c3, c4, c5), s1)"
    and pos: "0 < errors_found s1"
    and fx: "fix_errors (print Attempting_fix (print (Total_errors (errors_found s1))
        (print (Summary c1 c2 c3 c4 c5) s1))) = Some s2"
    and v2: "run_validators (print Rechecking
        ((print (Errors_fixed (errors_fixed s2)) s2)\<lparr>errors_found := 0, errors_fixed := 0\<rparr>)) =
      Some ((d1, d2, d3, d4, d5), s3)"
  shows "check_and_repair s =
     Some (print (if errors_found s3 = 0 then All_fixed else Manual_needed)
       (print (Remaining_errors (errors_found s3))
         (print (Original_errors (errors_found s2))
           (print (Recheck_summary d1 d2 d3 d4 d5) s3))))"
proof -
  have "errors_found (print m t) = errors_found t" for m t
    by (simp add: print_def)
  then show ?thesis
    unfolding check_and_repair_def using pos
    by (simp add: v1 fx v2 Let_def)
qed

lemma check_and_repair_consistent:
  assumes v1: "run_validators (print Checking (fold reset_reference [0..<64] s)) =
      Some ((c1, c2, c3, c4, c5), s1)"
    and none: "\<not> 0 < errors_found s1"
  shows "check_and_repair s =
     Some (print No_errors (print (Total_errors (errors_found s1))
        (print (Summary c1 c2 c3 c4 c5) s1)))"
proof -
  have "errors_found (print m t) = errors_found t" for m t
    by (simp add: print_def)
  then show ?thesis
    unfolding check_and_repair_def using none
    by (simp add: v1 Let_def)
qed

lemma concat_map_Nil: "(\<And>x. x \<in> set xs \<Longrightarrow> f x = []) \<Longrightarrow> concat (map f xs) = []"
  by (induction xs) simp_all

lemma run_validators_unused:
  assumes unused: "\<And>i. i < 80 \<Longrightarrow> \<not> (0 < nlink (inodes s i) \<and> dtime (inodes s i) = 0)"
    and start: "0 \<le> sint (data_block_start (superblock s))"
    and readable: "image_readable s"
  shows "run_validators s =
     Some ((superblock_findings (superblock s) = [],
            concat (map (slot_findings s) [0..<80]) = [],
            concat (map (data_block_findings (tracked_state s []))
              [nat (sint (data_block_start (superblock s)))..<64]) = [],
            True, True),
           snd (add_findings
                  (superblock_findings (superblock s) @
                   concat (map (slot_findings s) [0..<80]) @
                   concat (map (data_block_findings (tracked_state s []))
                     [nat (sint (data_block_start (superblock s)))..<64]))
                  (True, tracked_state s [])))"
proof -
  define region where "region = [nat (sint (data_block_start (superblock s)))..<64]"
  have tc: "tracker_claims s [0..<80] = Some []"
    by (rule tracker_claims_unused) (simp add: unused)
  have dc: "duplicate_claims s [0..<80] = Some []"
    by (rule duplicate_claims_unused) (simp add: unused)
  have wild: "\<not> list_ex (\<lambda>c. wild (data_block_start (superblock s)) (snd c)) []"
    by simp
  have region: "data_region s = Some region"
    using start by (simp add: data_region_def region_def)
  have few: "\<not> list_ex (\<lambda>b. 80 < length (claimants [] b)) [0..<64]"
    by (simp add: claimants_def list_ex_iff)
  have F4: "concat (map (duplicate_findings []) region) = []"
    by (rule concat_map_Nil) (simp add: duplicate_findings_def claimants_def)
  have F5: "concat (map (bad_block_findings s) [0..<80]) = []"
    by (rule concat_map_Nil) (simp add: bad_block_findings_def unused)
  show ?thesis
    unfolding run_validators_eq [OF tc wild region dc few readable] F4 F5
    by (simp add: region_def)
qed

lemma zero_count_run:
  "\<exists>t e ms. check_and_repair zero_count_state = Some t \<and> 2 \<le> e \<and>
     stdout t = [Checking, Bad_magic 0, Summary False True True True True, Total_errors 1,
                 Attempting_fix, Errors_fixed e, Rechecking] @ ms"
proof -
  define s0 where "s0 = print Checking (fold reset_reference [0..<64] zero_count_state)"
  have s0: "superblock s0 = clean_superblock\<lparr>magic := 0, inode_count := 0\<rparr>"
    "inodes s0 = (\<lambda>_. free_inode)" "inode_bitmap s0 = (\<lambda>_. 0)" "data_bitmap s0 = (\<lambda>_. 0)"
    "stdout s0 = [Checking]" "errors_found s0 = 0" "errors_fixed s0 = 0"
    "block_referenced s0 = (\<lambda>_. False)"
    by (simp_all add: s0_def print_def reset_all_references zero_count_state_def clean_state_def)
  have readable0: "image_readable s0"
    by (simp add: s0_def print_def reset_all_references zero_count_state_def clean_state_def
        image_readable_def list_all_iff)
  have F1: "superblock_findings (superblock s0) = [Bad_magic 0]"
    by (simp add: s0 superblock_findings_def clean_superblock_def)
  have F2: "concat (map (slot_findings s0) [0..<80]) = []"
    by (rule concat_map_Nil) (simp add: slot_findings_def s0 free_inode_def)
  have F3: "concat (map (data_block_findings (tracked_state s0 []))
      [nat (sint (data_block_start (superblock s0)))..<64]) = []"
    by (rule concat_map_Nil) (simp add: data_block_findings_def tracked_state_def s0)
  define s1 where "s1 = snd (add_findings [Bad_magic 0] (True, tracked_state s0 []))"
  have v1: "run_validators s0 = Some ((False, True, True, True, True), s1)"
    using run_validators_unused [of s0] readable0
    by (simp add: F1 F2 F3 s1_def) (simp add: s0 free_inode_def clean_superblock_def)
  have s1: "errors_found s1 = 1" "stdout s1 = [Checking, Bad_magic 0]" "same_disk s0 s1"
    "errors_fixed s1 = 0"
    by (simp_all add: s1_def add_findings_def s0 tracked_state_def same_disk_def)
  define p where "p = print Attempting_fix (print (Total_errors (errors_found s1))
        (print (Summary False True True True True) s1))"
  have p: "same_disk s0 p" "errors_fixed p = 0"
    "stdout p = [Checking, Bad_magic 0, Summary False True True True True, Total_errors 1,
       Attempting_fix]"
    using s1 by (simp_all add: p_def print_def same_disk_def)
  have "image_readable p"
    using readable0 by (simp add: same_disk_image_readable [OF p(1)])
  from fix_errors_effect [OF this]
  obtain bmi bmd e img ws where fx: "fix_errors p =
      Some (p\<lparr>superblock := repaired_superblock (superblock p),
              inode_bitmap := bmi, data_bitmap := bmd,
              inodes := (\<lambda>k. if k < 80 then repaired_inode 8 (inodes p k) else inodes p k),
              errors_fixed := e, fs_image := img,
              writes := writes p @ ws @
                W_superblock 0 # W_inode_bitmap 4096 # W_data_bitmap 8192 #
                map (\<lambda>i. W_inode (12288 + 256 * i) i) [0..<80]\<rparr>)"
    and e: "errors_fixed p + superblock_repairs (superblock p) \<le> e"
    and img: "image_repaired 8 (fs_image p) img"
    by blast
  define s2 where "s2 = p\<lparr>superblock := repaired_superblock (superblock p),
              inode_bitmap := bmi, data_bitmap := bmd,
              inodes := (\<lambda>k. if k < 80 then repaired_inode 8 (inodes p k) else inodes p k),
              errors_fixed := e, fs_image := img,
              writes := writes p @ ws @
                W_superblock 0 # W_inode_bitmap 4096 # W_data_bitmap 8192 #
                map (\<lambda>i. W_inode (12288 + 256 * i) i) [0..<80]\<rparr>"
  define q where "q = print Rechecking
        ((print (Errors_fixed (errors_fixed s2)) s2)\<lparr>errors_found := 0, errors_fixed := 0\<rparr>)"
  have "superblock p = superblock s0" "inodes p = inodes s0"
    using p(1) by (simp_all add: same_disk_def)
  then have q: "data_block_start (superblock q) = 8"
    "inodes q = (\<lambda>k. if k < 80 then repaired_inode 8 free_inode else free_inode)"
    "fs_image q = img"
    "stdout q = stdout p @ [Errors_fixed e, Rechecking]"
    by (simp_all add: q_def s2_def print_def s0 cong: if_cong)
  have "2 \<le> e"
    using e p(2) \<open>superblock p = superblock s0\<close>
    by (simp add: s0 superblock_repairs_def clean_superblock_def)
  have "image_readable q"
    using img \<open>image_readable p\<close> q(3) by (rule image_repaired_readable)
  moreover have "\<not> (0 < nlink (inodes q i) \<and> dtime (inodes q i) = 0)" for i
    by (simp add: q repaired_inode_def free_inode_def)
  moreover have "0 \<le> sint (data_block_start (superblock q))"
    by (simp add: q)
  ultimately obtain d1 d2 d3 ms where
    v2: "run_validators q = Some ((d1, d2, d3, True, True),
       snd (add_findings ms (True, tracked_state q [])))"
    using run_validators_unused [of q] by blast
  define s3 where "s3 = snd (add_findings ms (True, tracked_state q []))"
  have s3: "stdout s3 = stdout q @ ms"
    by (simp add: s3_def add_findings_def tracked_state_def)
  have fx': "fix_errors p = Some s2"
    unfolding s2_def by (rule fx)
  have v2': "run_validators q = Some ((d1, d2, d3, True, True), s3)"
    unfolding s3_def by (rule v2)
  have "check_and_repair zero_count_state =
     Some (print (if errors_found s3 = 0 then All_fixed else Manual_needed)
       (print (Remaining_errors (errors_found s3))
         (print (Original_errors (errors_found s2))
           (print (Recheck_summary d1 d2 d3 True True) s3))))"
    using v1 [unfolded s0_def] _ fx' [unfolded p_def] v2' [unfolded q_def]
    by (rule check_and_repair_repairs) (simp add: s1)
  moreover have "stdout (print (if errors_found s3 = 0 then All_fixed else Manual_needed)
       (print (Remaining_errors (errors_found s3))
         (print (Original_errors (errors_found s2))
           (print (Recheck_summary d1 d2 d3 True True) s3)))) =
     [Checking, Bad_magic 0, Summary False True True True True, Total_errors 1,
       Attempting_fix, Errors_fixed e, Rechecking] @ ms @
     [Recheck_summary d1 d2 d3 True True, Original_errors (errors_found s2),
      Remaining_errors (errors_found s3),
      if errors_found s3 = 0 then All_fixed else Manual_needed]"
    by (simp add: print_def s3 q p)
  ultimately show ?thesis
    using \<open>2 \<le> e\<close> by blast
qed

lemma Bad_inode_count_in_findings:
  "Bad_inode_count v \<in> set (superblock_findings sb) \<longleftrightarrow>
     v = inode_count sb \<and> v \<noteq> 80 \<and> v \<noteq> 0"
  unfolding superblock_findings_def set_append Un_iff in_set_if_finding
  by auto

lemma superblock_findings_zero_count:
  assumes "inode_count sb = 0"
  shows "int (length (superblock_findings sb)) + 1 = superblock_repairs sb"
proof -
  have "int (length (superblock_findings sb)) =
     of_bool (magic sb \<noteq> 0xD34D) + of_bool (block_size sb \<noteq> 4096) +
     of_bool (total_blocks sb \<noteq> 64) + of_bool (inode_bitmap_block sb \<noteq> 1) +
     of_bool (data_bitmap_block sb \<noteq> 2) + of_bool (inode_table_start sb \<noteq> 3) +
     of_bool (data_block_start sb \<noteq> 8) + of_bool (inode_size sb \<noteq> 256) +
     of_bool (inode_count sb \<noteq> 80 \<and> inode_count sb \<noteq> 0)"
    unfolding superblock_findings_def
    by (simp only: length_append of_nat_add length_if_finding)
  then show ?thesis
    using assms by (simp add: superblock_repairs_def)
qed

lemma zero_count_state_facts:
  "inode_count (superblock zero_count_state) = 0" "image_readable zero_count_state"
  by (simp_all add: zero_count_state_def clean_state_def clean_superblock_def
      image_readable_def list_all_iff)

section \<open>Lemmas: an image whose superblock misplaces the data region\<close>

lemma fold_unchanged: "(\<And>x. x \<in> set xs \<Longrightarrow> f x s = s) \<Longrightarrow> fold f xs s = s"
  by (induction xs) simp_all

lemma for_each_unchanged: "(\<And>x. x \<in> set xs \<Longrightarrow> f x s = Some s) \<Longrightarrow> for_each xs f s = Some s"
  by (induction xs) simp_all

lemma fix_inode_bit_agree:
  "(get_bit (inode_bitmap s) i \<noteq> 0) = is_valid_inode s i \<Longrightarrow> fix_inode_bit i s = s"
  by (auto simp add: fix_inode_bit_def Let_def)

lemma fix_data_bit_agree:
  "(get_bit (data_bitmap s) (i - nat (sint (data_block_start (superblock s)))) \<noteq> 0) =
     block_referenced s i \<Longrightarrow> fix_data_bit i s = s"
  by (auto simp add: fix_data_bit_def Let_def)

lemma fix_direct_agree:
  "\<not> bad_pointer (data_block_start (superblock s)) (direct_blocks (inodes s i) j) \<Longrightarrow>
     fix_direct i j s = s"
  by (simp add: fix_direct_def Let_def bad_pointer_out_of_range)

lemma fix_inode_blocks_agree:
  assumes "is_valid_inode s i \<Longrightarrow> indirect_block (inodes s i) = 0 \<and>
     (\<forall>j<12. \<not> bad_pointer (data_block_start (superblock s)) (direct_blocks (inodes s i) j))"
  shows "fix_inode_blocks i s = Some s"
proof (cases "is_valid_inode s i")
  case False
  then show ?thesis by (simp add: fix_inode_blocks_def)
next
  case True
  then have "fold (fix_direct i) [0..<12] s = s"
    using assms by (intro fold_unchanged fix_direct_agree) simp
  then show ?thesis
    using True assms by (simp add: fix_inode_blocks_def)
qed

lemma fix_errors_agree:
  assumes ib: "\<And>i. i < 80 \<Longrightarrow> (get_bit (inode_bitmap s) i \<noteq> 0) = is_valid_inode s i"
    and ptr: "\<And>i. i < 80 \<Longrightarrow> is_valid_inode s i \<Longrightarrow> indirect_block (inodes s i) = 0 \<and>
        (\<forall>j<12. \<not> bad_pointer 8 (direct_blocks (inodes s i) j))"
  shows "fix_errors s =
     Some (write_inodes (write_bitmaps (write_superblock
       (fold fix_data_bit [8..<64] (fix_superblock s)))))"
proof -
  define t where "t = fix_superblock s"
  have t: "inode_bitmap t = inode_bitmap s" "inodes t = inodes s"
    "data_block_start (superblock t) = 8"
    by (simp_all add: t_def fix_superblock_eq)
  have valid: "is_valid_inode t = is_valid_inode s"
    by (simp add: fun_eq_iff is_valid_inode_def t)
  have 1: "fold fix_inode_bit [0..<80] t = t"
    by (intro fold_unchanged fix_inode_bit_agree) (simp add: t valid ib)
  have region: "data_region t = Some [8..<64]"
    by (simp add: data_region_def t)
  define u where "u = fold fix_data_bit [8..<64] t"
  obtain bm e where "u = t\<lparr>data_bitmap := bm, errors_fixed := e\<rparr>"
    using fold_fix_data_bit [of t "[8..<64]"] t(3) unfolding u_def by auto
  then have u: "inodes u = inodes s" "data_block_start (superblock u) = 8"
    by (simp_all add: t)
  have 2: "for_each [0..<80] fix_inode_blocks u = Some u"
  proof (intro for_each_unchanged fix_inode_blocks_agree)
    fix i assume "i \<in> set [0..<80]" and "is_valid_inode u i"
    then have "i < 80" and "is_valid_inode s i"
      by (simp_all add: is_valid_inode_def u)
    then show "indirect_block (inodes u i) = 0 \<and>
        (\<forall>j<12. \<not> bad_pointer (data_block_start (superblock u)) (direct_blocks (inodes u i) j))"
      using ptr [of i] by (simp add: u)
  qed
  show ?thesis
    unfolding fix_errors_def t_def [symmetric]
    by (simp add: 1 region u_def [symmetric] 2 del: upt_rec_numeral)
qed

lemma owner_inodes_simps [simp]:
  "nlink (owner_inodes i) = (if i = 0 then 1 else 0)"
  "dtime (owner_inodes i) = 0"
  "indirect_block (owner_inodes i) = 0"
  "direct_blocks (owner_inodes i) j = (if i = 0 \<and> j = 0 then 8 else 0)"
  by (simp_all add: owner_inodes_def free_inode_def)

lemma owner_claims:
  assumes "inodes s = owner_inodes"
  shows "tracker_claims s [0..<80] = Some (map (\<lambda>j. (0, if j = 0 then 8 else 0)) [0..<12])"
    and "duplicate_claims s [0..<80] = Some (map (\<lambda>j. (0, if j = 0 then 8 else 0)) [0..<12])"
proof -
  have "tracker_claims s [1..<80] = Some []"
    by (rule tracker_claims_unused) (simp add: assms)
  moreover have "tracker_pointers s 0 = Some (map (\<lambda>j. if j = 0 then 8 else 0) [0..<12])"
    by (simp add: tracker_pointers_def assms)
  ultimately show "tracker_claims s [0..<80] = Some (map (\<lambda>j. (0, if j = 0 then 8 else 0)) [0..<12])"
    unfolding upt_80 by (simp add: comp_def)
  have "duplicate_claims s [1..<80] = Some []"
    by (rule duplicate_claims_unused) (simp add: assms)
  moreover have "duplicate_pointers s 0 = Some (map (\<lambda>j. if j = 0 then 8 else 0) [0..<12])"
    by (simp add: duplicate_pointers_def assms counted_def)
  ultimately show "duplicate_claims s [0..<80] = Some (map (\<lambda>j. (0, if j = 0 then 8 else 0)) [0..<12])"
    unfolding upt_80 by (simp add: comp_def)
qed

lemma concat_map_cong:
  "(\<And>x. x \<in> set xs \<Longrightarrow> f x = g x) \<Longrightarrow> concat (map f xs) = concat (map g xs)"
  by (induction xs) simp_all

lemma owner_tracked:
  fixes s :: fsck_state
  defines "cl \<equiv> map (\<lambda>j. (0 :: nat, if j = 0 then 8 else 0 :: u32)) [0..<12]"
  assumes "data_block_start (superblock s) = (if shifted then 10 else 8)"
  shows "block_referenced (tracked_state s cl) b =
           (if b < 64 then \<not> shifted \<and> b = 8 else block_referenced s b)"
    and "block_referenced_by (tracked_state s cl) b =
           (if b < 64 then (if \<not> shifted \<and> b = 8 then 0 else - 1) else block_referenced_by s b)"
  using assms(2) unfolding cl_def upt_12
  by (simp_all add: tracked_state_def track_def tracked_def Let_def)

lemma concat_single:
  "concat (map (\<lambda>b. if b = k then ys else []) [i..<j]) = (if i \<le> k \<and> k < j then ys else [])"
  by (induction j) auto

lemma owner_run:
  assumes ino: "inodes s = owner_inodes" and ibm: "inode_bitmap s = (\<lambda>_. 0)(0 := 1)"
    and dbm: "data_bitmap s = (\<lambda>_. 0)(0 := of_bool marked)"
    and sb: "superblock s = clean_superblock\<lparr>data_block_start := (if shifted then 10 else 8)\<rparr>"
    and readable: "image_readable s"
  shows "\<exists>t. run_validators s =
       Some ((\<not> shifted, True, (if shifted then \<not> marked else marked), True, \<not> shifted), t) \<and>
     same_disk s t \<and> stdout t = stdout s @ owner_findings shifted marked \<and>
     errors_found t = errors_found s + int (length (owner_findings shifted marked)) \<and>
     errors_fixed t = errors_fixed s \<and> writes t = writes s \<and>
     (\<forall>b<64. block_referenced t b \<longleftrightarrow> \<not> shifted \<and> b = 8)"
proof -
  define cl where "cl = map (\<lambda>j. (0 :: nat, if j = 0 then 8 else 0 :: u32)) [0..<12]"
  define st :: nat where "st = (if shifted then 10 else 8)"
  have start: "data_block_start (superblock s) = (if shifted then 10 else 8)"
    by (simp add: sb)
  have tc: "tracker_claims s [0..<80] = Some cl" and dc: "duplicate_claims s [0..<80] = Some cl"
    unfolding cl_def by (rule owner_claims [OF ino])+
  have wild: "\<not> list_ex (\<lambda>c. wild (data_block_start (superblock s)) (snd c)) cl"
    unfolding cl_def upt_12 by (simp add: wild_def)
  have region: "data_region s = Some [st..<64]"
    by (simp add: data_region_def start st_def)
  have cls: "claimants cl = (\<lambda>b. if b = 8 then [0] else [])"
    unfolding cl_def upt_12 by (simp add: claimants_def counted_def fun_eq_iff)
  have few: "\<not> list_ex (\<lambda>b. 80 < length (claimants cl b)) [0..<64]"
    unfolding cls by (simp add: list_ex_iff)
  have F1: "superblock_findings (superblock s) = (if shifted then [Bad_data_block_start 10] else [])"
    by (simp add: sb superblock_findings_def clean_superblock_def)
  have F2: "concat (map (slot_findings s) [0..<80]) = []"
  proof (rule concat_map_Nil)
    fix i :: nat
    have "i div 8 = 0 \<and> i mod 8 = 0 \<longleftrightarrow> i = 0" by auto
    then show "slot_findings s i = []"
      by (simp add: slot_findings_def ino ibm bit_1_iff)
  qed
  have br: "block_referenced (tracked_state s cl) b =
      (if b < 64 then \<not> shifted \<and> b = 8 else block_referenced s b)"
    and bb: "block_referenced_by (tracked_state s cl) b =
      (if b < 64 then (if \<not> shifted \<and> b = 8 then 0 else - 1) else block_referenced_by s b)" for b
    unfolding cl_def by (rule owner_tracked [OF start])+
  have "data_block_findings (tracked_state s cl) b =
      (if b = st then (if shifted then (if marked then [Block_marked_not_referenced 10] else [])
                       else (if marked then [] else [Block_referenced_not_marked 8 0]))
       else [])" if "b \<in> set [st..<64]" for b
  proof -
    from that have b: "st \<le> b" "b < 64" by simp_all
    have bit: "bit (((\<lambda>_. 0 :: u8)(0 := of_bool marked)) ((b - st) div 8)) ((b - st) mod 8) \<longleftrightarrow>
        marked \<and> b = st"
    proof (cases "b = st")
      case True
      then show ?thesis by (simp add: bit_of_bool_iff)
    next
      case False
      then have "b - st \<noteq> 0" using b by simp
      then have "(b - st) div 8 \<noteq> 0 \<or> (b - st) mod 8 \<noteq> 0"
        using div_mult_mod_eq [of "b - st" 8] by auto
      then show ?thesis
        using False by (cases "(b - st) div 8 = 0") (simp_all add: bit_of_bool_iff)
    qed
    have k: "nat (sint (data_block_start (superblock (tracked_state s cl)))) = st"
      by (simp add: tracked_state_def Let_def start st_def)
    have dbm': "data_bitmap (tracked_state s cl) = (\<lambda>_. 0)(0 := of_bool marked)"
      by (simp add: tracked_state_def Let_def dbm)
    have "data_block_findings (tracked_state s cl) b =
        (if (marked \<and> b = st) \<and> \<not> (\<not> shifted \<and> b = 8) then [Block_marked_not_referenced b]
         else if \<not> (marked \<and> b = st) \<and> (\<not> shifted \<and> b = 8)
         then [Block_referenced_not_marked b (if \<not> shifted \<and> b = 8 then 0 else - 1)]
         else [])"
      by (simp only: data_block_findings_def Let_def k dbm' bit br bb b if_True)
    then show ?thesis
      by (cases shifted; cases marked; simp add: st_def)
  qed
  then have "concat (map (data_block_findings (tracked_state s cl)) [st..<64]) =
      concat (map (\<lambda>b. if b = st
         then (if shifted then (if marked then [Block_marked_not_referenced 10] else [])
               else (if marked then [] else [Block_referenced_not_marked 8 0]))
         else []) [st..<64])"
    by (rule concat_map_cong)
  also have "\<dots> = (if shifted then (if marked then [Block_marked_not_referenced 10] else [])
               else (if marked then [] else [Block_referenced_not_marked 8 0]))"
    by (simp add: concat_single st_def)
  finally have F3: "concat (map (data_block_findings (tracked_state s cl)) [st..<64]) =
      (if shifted then (if marked then [Block_marked_not_referenced 10] else [])
       else (if marked then [] else [Block_referenced_not_marked 8 0]))" .
  have F4: "concat (map (duplicate_findings cl) [st..<64]) = []"
    by (rule concat_map_Nil) (simp add: duplicate_findings_def cls)
  have direct: "direct_findings s 0 = (\<lambda>j. if j = 0 then (if shifted then [Bad_direct 0 0 8] else []) else [])"
    by (simp add: fun_eq_iff direct_findings_def ino start bad_pointer_def)
  have "bad_block_findings s = (\<lambda>i. if i = 0 then (if shifted then [Bad_direct 0 0 8] else []) else [])"
    by (simp add: fun_eq_iff bad_block_findings_def direct concat_single indirect_findings_def ino
        del: upt_rec_numeral)
  then have F5: "concat (map (bad_block_findings s) [0..<80]) =
      (if shifted then [Bad_direct 0 0 8] else [])"
    by (simp add: concat_single del: upt_rec_numeral)
  define t where "t = snd (add_findings (owner_findings shifted marked) (True, tracked_state s cl))"
  have "run_validators s =
       Some ((\<not> shifted, True, (if shifted then \<not> marked else marked), True, \<not> shifted), t)"
    unfolding run_validators_eq [OF tc wild region dc few readable] F1 F2 F3 F4 F5 t_def
    by (simp add: owner_findings_def)
  moreover have "same_disk s t"
    unfolding t_def by (rule same_disk_trans [OF same_disk_tracked_state same_disk_add_findings])
  moreover have "stdout t = stdout s @ owner_findings shifted marked"
    "errors_found t = errors_found s + int (length (owner_findings shifted marked))"
    "errors_fixed t = errors_fixed s" "writes t = writes s"
    by (simp_all add: t_def add_findings_def tracked_state_def Let_def)
  moreover have "\<forall>b<64. block_referenced t b \<longleftrightarrow> \<not> shifted \<and> b = 8"
    using br by (simp add: t_def add_findings_def)
  ultimately show ?thesis by blast
qed

lemma owner_repair:
  assumes ino: "inodes s = owner_inodes" and ibm: "inode_bitmap s = (\<lambda>_. 0)(0 := 1)"
    and dbm: "data_bitmap s = (\<lambda>_. 0)(0 := of_bool marked)"
    and sb: "superblock s = clean_superblock\<lparr>data_block_start := (if shifted then 10 else 8)\<rparr>"
    and br: "\<forall>b<64. block_referenced s b \<longleftrightarrow> r \<and> b = 8"
  shows "\<exists>t. fix_errors s = Some t \<and> inodes t = owner_inodes \<and>
     inode_bitmap t = (\<lambda>_. 0)(0 := 1) \<and> data_bitmap t = (\<lambda>_. 0)(0 := of_bool r) \<and>
     superblock t = clean_superblock \<and> fs_image t = fs_image s \<and> stdout t = stdout s \<and>
     errors_found t = errors_found s \<and>
     errors_fixed t = errors_fixed s + of_bool shifted + of_bool (marked \<noteq> r) \<and>
     writes t = writes s @ W_superblock 0 # W_inode_bitmap 4096 # W_data_bitmap 8192 #
       map (\<lambda>i. W_inode (12288 + 256 * i) i) [0..<80]"
proof -
  have valid: "is_valid_inode s i \<longleftrightarrow> i = 0" for i
    by (simp add: is_valid_inode_def ino)
  have ib: "(get_bit (inode_bitmap s) i \<noteq> 0) = is_valid_inode s i" for i
  proof -
    have "i div 8 = 0 \<and> i mod 8 = 0 \<longleftrightarrow> i = 0" by auto
    then show ?thesis
      by (cases "i div 8 = 0") (auto simp add: get_bit_eq ibm valid bit_1_iff)
  qed
  have ptr: "indirect_block (inodes s i) = 0 \<and>
      (\<forall>j<12. \<not> bad_pointer 8 (direct_blocks (inodes s i) j))" for i
    by (simp add: ino bad_pointer_def)
  define t0 where "t0 = fix_superblock s"
  have "repaired_superblock (superblock s) = clean_superblock"
    "superblock_repairs (superblock s) = of_bool shifted"
    by (simp_all add: sb repaired_superblock_def superblock_repairs_def clean_superblock_def)
  then have t0: "t0 = s\<lparr>superblock := clean_superblock,
      errors_fixed := errors_fixed s + of_bool shifted\<rparr>"
    by (simp add: t0_def fix_superblock_eq)
  define u where "u = t0\<lparr>data_bitmap := (\<lambda>_. 0)(0 := of_bool r),
      errors_fixed := errors_fixed s + of_bool shifted + of_bool (marked \<noteq> r)\<rparr>"
  have r8: "block_referenced s 8 = r"
    using br by simp
  have first: "fix_data_bit 8 t0 = u"
    by (cases marked; cases r)
       (simp_all add: fix_data_bit_def t0 u_def clean_superblock_def dbm get_bit_eq r8
          set_bit_def clear_bit_def)
  have rest: "fold fix_data_bit [9..<64] u = u"
  proof (intro fold_unchanged fix_data_bit_agree)
    fix i assume "i \<in> set [9..<64]"
    then have i: "9 \<le> i" "i < 64" unfolding set_upt by simp_all
    then have "\<not> ((i - 8) div 8 = 0 \<and> (i - 8) mod 8 = 0)" by auto
    then have "\<not> bit (((\<lambda>_. 0 :: u8)(0 := of_bool r)) ((i - 8) div 8)) ((i - 8) mod 8)"
      by (cases "(i - 8) div 8 = 0") (simp_all add: bit_of_bool_iff)
    moreover have "\<not> block_referenced u i"
      using br i by (simp add: u_def t0)
    ultimately show "(get_bit (data_bitmap u)
        (i - nat (sint (data_block_start (superblock u)))) \<noteq> 0) = block_referenced u i"
      by (simp add: get_bit_eq u_def t0 clean_superblock_def)
  qed
  have "[8..<64] = 8 # [9..<64]"
    by (simp add: upt_rec)
  then have "fold fix_data_bit [8..<64] t0 = fold fix_data_bit [9..<64] (fix_data_bit 8 t0)"
    by (simp only: fold_simps o_apply)
  then have "fold fix_data_bit [8..<64] t0 = u"
    by (simp only: first rest)
  then have fx: "fix_errors s = Some (write_inodes (write_bitmaps (write_superblock u)))"
    using fix_errors_agree [of s] ib valid ptr by (simp add: t0_def)
  have off: "map (\<lambda>i. W_inode (unat (3 * 4096 + of_nat i * 256 :: u32)) i) [0..<80] =
      map (\<lambda>i. W_inode (12288 + 256 * i) i) [0..<80]"
    by (rule map_cong) (simp_all add: inode_offset_normal del: upt_rec_numeral)
  have "writes (write_inodes (write_bitmaps (write_superblock u))) =
      writes s @ W_superblock 0 # W_inode_bitmap 4096 # W_data_bitmap 8192 #
       map (\<lambda>i. W_inode (12288 + 256 * i) i) [0..<80]"
    unfolding write_inodes_def fold_write_inode
    using off by (simp add: write_bitmaps_def write_superblock_def u_def t0 clean_superblock_def
        block_offset_def del: upt_rec_numeral)
  moreover have "inodes (write_inodes (write_bitmaps (write_superblock u))) = owner_inodes"
    "inode_bitmap (write_inodes (write_bitmaps (write_superblock u))) = (\<lambda>_. 0)(0 := 1)"
    "data_bitmap (write_inodes (write_bitmaps (write_superblock u))) = (\<lambda>_. 0)(0 := of_bool r)"
    "superblock (write_inodes (write_bitmaps (write_superblock u))) = clean_superblock"
    "fs_image (write_inodes (write_bitmaps (write_superblock u))) = fs_image s"
    "stdout (write_inodes (write_bitmaps (write_superblock u))) = stdout s"
    "errors_found (write_inodes (write_bitmaps (write_superblock u))) = errors_found s"
    "errors_fixed (write_inodes (write_bitmaps (write_superblock u))) =
       errors_fixed s + of_bool shifted + of_bool (marked \<noteq> r)"
    unfolding write_inodes_def fold_write_inode
    by (simp_all add: write_bitmaps_def write_superblock_def u_def t0 ino ibm)
  ultimately show ?thesis
    using fx by blast
qed

lemma owner_program_run:
  assumes ino: "inodes s = owner_inodes" and ibm: "inode_bitmap s = (\<lambda>_. 0)(0 := 1)"
    and dbm: "data_bitmap s = (\<lambda>_. 0)(0 := of_bool marked)"
    and sb: "superblock s = clean_superblock\<lparr>data_block_start := (if shifted then 10 else 8)\<rparr>"
    and readable: "image_readable s"
    and fresh: "errors_found s = 0" "errors_fixed s = 0" "stdout s = []" "writes s = []"
    and found: "owner_findings shifted marked \<noteq> []"
  shows "\<exists>t. check_and_repair s = Some t \<and>
     stdout t = Checking # owner_findings shifted marked @
       [Summary (\<not> shifted) True (if shifted then \<not> marked else marked) True (\<not> shifted),
        Total_errors (int (length (owner_findings shifted marked))),
        Attempting_fix,
        Errors_fixed (of_bool shifted + of_bool (marked = shifted)),
        Rechecking] @ owner_findings False (\<not> shifted) @
       [Recheck_summary True True (\<not> shifted) True True,
        Original_errors (int (length (owner_findings shifted marked))),
        Remaining_errors (int (length (owner_findings False (\<not> shifted)))),
        if shifted then Manual_needed else All_fixed] \<and>
     inodes t = owner_inodes \<and> inode_bitmap t = (\<lambda>_. 0)(0 := 1) \<and>
     data_bitmap t = (\<lambda>_. 0)(0 := of_bool (\<not> shifted)) \<and>
     superblock t = clean_superblock \<and> fs_image t = fs_image s \<and>
     writes t = W_superblock 0 # W_inode_bitmap 4096 # W_data_bitmap 8192 #
       map (\<lambda>i. W_inode (12288 + 256 * i) i) [0..<80]"
proof -
  define F where "F = owner_findings shifted marked"
  define G where "G = owner_findings False (\<not> shifted)"
  define s0 where "s0 = print Checking (fold reset_reference [0..<64] s)"
  have d0: "same_disk s s0"
    unfolding s0_def by (rule same_disk_trans [OF same_disk_reset same_disk_print])
  have s0: "stdout s0 = [Checking]" "errors_found s0 = 0" "errors_fixed s0 = 0" "writes s0 = []"
    by (simp_all add: s0_def print_def fold_reset_reference fresh)
  have "image_readable s0"
    using readable by (simp add: same_disk_image_readable [OF d0])
  moreover have "inodes s0 = owner_inodes" "inode_bitmap s0 = (\<lambda>_. 0)(0 := 1)"
    "data_bitmap s0 = (\<lambda>_. 0)(0 := of_bool marked)"
    "superblock s0 = clean_superblock\<lparr>data_block_start := (if shifted then 10 else 8)\<rparr>"
    by (simp_all only: same_disk_fields [OF d0] ino ibm dbm sb)
  ultimately have "\<exists>t. run_validators s0 =
       Some ((\<not> shifted, True, (if shifted then \<not> marked else marked), True, \<not> shifted), t) \<and>
     same_disk s0 t \<and> stdout t = stdout s0 @ F \<and>
     errors_found t = errors_found s0 + int (length F) \<and>
     errors_fixed t = errors_fixed s0 \<and> writes t = writes s0 \<and>
     (\<forall>b<64. block_referenced t b \<longleftrightarrow> \<not> shifted \<and> b = 8)"
    unfolding F_def by (intro owner_run)
  then obtain s1 where
    v1: "run_validators s0 =
       Some ((\<not> shifted, True, (if shifted then \<not> marked else marked), True, \<not> shifted), s1)"
    and d1: "same_disk s0 s1" and s1: "stdout s1 = stdout s0 @ F"
      "errors_found s1 = errors_found s0 + int (length F)"
      "errors_fixed s1 = errors_fixed s0" "writes s1 = writes s0"
    and br1: "\<forall>b<64. block_referenced s1 b \<longleftrightarrow> \<not> shifted \<and> b = 8"
    by blast
  have pos: "0 < errors_found s1"
    using found by (simp add: s1 s0 F_def)
  define p where "p = print Attempting_fix (print (Total_errors (errors_found s1))
      (print (Summary (\<not> shifted) True (if shifted then \<not> marked else marked) True (\<not> shifted)) s1))"
  have "same_disk s1 p"
    by (simp add: p_def print_def same_disk_def)
  then have dp: "same_disk s p"
    by (rule same_disk_trans [OF d0 same_disk_trans [OF d1]])
  have p: "stdout p = Checking # F @
      [Summary (\<not> shifted) True (if shifted then \<not> marked else marked) True (\<not> shifted),
       Total_errors (int (length F)), Attempting_fix]"
    "errors_found p = int (length F)" "errors_fixed p = 0" "writes p = []"
    "block_referenced p = block_referenced s1"
    by (simp_all add: p_def print_def s1 s0)
  have "inodes p = owner_inodes" "inode_bitmap p = (\<lambda>_. 0)(0 := 1)"
    "data_bitmap p = (\<lambda>_. 0)(0 := of_bool marked)"
    "superblock p = clean_superblock\<lparr>data_block_start := (if shifted then 10 else 8)\<rparr>"
    by (simp_all only: same_disk_fields [OF dp] ino ibm dbm sb)
  moreover have "\<forall>b<64. block_referenced p b \<longleftrightarrow> \<not> shifted \<and> b = 8"
    using br1 by (simp only: p(5))
  ultimately have "\<exists>t. fix_errors p = Some t \<and> inodes t = owner_inodes \<and>
     inode_bitmap t = (\<lambda>_. 0)(0 := 1) \<and> data_bitmap t = (\<lambda>_. 0)(0 := of_bool (\<not> shifted)) \<and>
     superblock t = clean_superblock \<and> fs_image t = fs_image p \<and> stdout t = stdout p \<and>
     errors_found t = errors_found p \<and>
     errors_fixed t = errors_fixed p + of_bool shifted + of_bool (marked \<noteq> (\<not> shifted)) \<and>
     writes t = writes p @ W_superblock 0 # W_inode_bitmap 4096 # W_data_bitmap 8192 #
       map (\<lambda>i. W_inode (12288 + 256 * i) i) [0..<80]"
    by (rule owner_repair)
  then obtain s2 where
    fx: "fix_errors p = Some s2" and s2: "inodes s2 = owner_inodes"
      "inode_bitmap s2 = (\<lambda>_. 0)(0 := 1)" "data_bitmap s2 = (\<lambda>_. 0)(0 := of_bool (\<not> shifted))"
      "superblock s2 = clean_superblock" "fs_image s2 = fs_image p" "stdout s2 = stdout p"
      "errors_found s2 = errors_found p"
      "errors_fixed s2 = errors_fixed p + of_bool shifted + of_bool (marked \<noteq> (\<not> shifted))"
      "writes s2 = writes p @ W_superblock 0 # W_inode_bitmap 4096 # W_data_bitmap 8192 #
         map (\<lambda>i. W_inode (12288 + 256 * i) i) [0..<80]"
    by blast
  define q where "q = print Rechecking
      ((print (Errors_fixed (errors_fixed s2)) s2)\<lparr>errors_found := 0, errors_fixed := 0\<rparr>)"
  have q: "inodes q = owner_inodes" "inode_bitmap q = (\<lambda>_. 0)(0 := 1)"
    "data_bitmap q = (\<lambda>_. 0)(0 := of_bool (\<not> shifted))"
    "superblock q = clean_superblock\<lparr>data_block_start := (if False then 10 else 8)\<rparr>"
    "fs_image q = fs_image s" "errors_found q = 0"
    "stdout q = stdout p @ [Errors_fixed (of_bool shifted + of_bool (marked = shifted)), Rechecking]"
    "writes q = W_superblock 0 # W_inode_bitmap 4096 # W_data_bitmap 8192 #
         map (\<lambda>i. W_inode (12288 + 256 * i) i) [0..<80]"
    using same_disk_fields(1) [OF dp]
    by (simp_all add: q_def print_def s2 p clean_superblock_def del: upt_rec_numeral)
  have "image_readable q"
    using readable q(5) by (simp add: image_readable_def)
  with q(1,2,3,4) have "\<exists>t. run_validators q =
       Some ((\<not> False, True, (if False then \<not> (\<not> shifted) else (\<not> shifted)), True, \<not> False), t) \<and>
     same_disk q t \<and> stdout t = stdout q @ owner_findings False (\<not> shifted) \<and>
     errors_found t = errors_found q + int (length (owner_findings False (\<not> shifted))) \<and>
     errors_fixed t = errors_fixed q \<and> writes t = writes q \<and>
     (\<forall>b<64. block_referenced t b \<longleftrightarrow> \<not> False \<and> b = 8)"
    by (intro owner_run)
  then obtain s3 where
    v2: "run_validators q = Some ((True, True, \<not> shifted, True, True), s3)"
    and d3: "same_disk q s3" and s3: "stdout s3 = stdout q @ G"
      "errors_found s3 = errors_found q + int (length G)" "writes s3 = writes q"
    unfolding G_def by auto
  define t where "t = print (if errors_found s3 = 0 then All_fixed else Manual_needed)
       (print (Remaining_errors (errors_found s3))
         (print (Original_errors (errors_found s2))
           (print (Recheck_summary True True (\<not> shifted) True True) s3)))"
  have r1: "check_and_repair s = Some t"
    unfolding t_def
    using v1 [unfolded s0_def] pos fx [unfolded p_def] v2 [unfolded q_def]
    by (rule check_and_repair_repairs)
  have "errors_found s3 = 0 \<longleftrightarrow> \<not> shifted"
    by (simp add: s3 q G_def owner_findings_def)
  then have r2: "stdout t = Checking # F @
       [Summary (\<not> shifted) True (if shifted then \<not> marked else marked) True (\<not> shifted),
        Total_errors (int (length F)), Attempting_fix,
        Errors_fixed (of_bool shifted + of_bool (marked = shifted)), Rechecking] @ G @
       [Recheck_summary True True (\<not> shifted) True True, Original_errors (int (length F)),
        Remaining_errors (int (length G)),
        if shifted then Manual_needed else All_fixed]"
    by (simp add: t_def print_def s3 q p s2 del: upt_rec_numeral)
  have "same_disk s3 t"
    by (simp add: t_def print_def same_disk_def)
  then have "same_disk q t"
    by (rule same_disk_trans [OF d3])
  then have r3: "inodes t = owner_inodes" "inode_bitmap t = (\<lambda>_. 0)(0 := 1)"
    "data_bitmap t = (\<lambda>_. 0)(0 := of_bool (\<not> shifted))"
    "superblock t = clean_superblock" "fs_image t = fs_image s"
    using q(1-5) by (simp_all add: same_disk_def clean_superblock_def)
  have r4: "writes t = W_superblock 0 # W_inode_bitmap 4096 # W_data_bitmap 8192 #
       map (\<lambda>i. W_inode (12288 + 256 * i) i) [0..<80]"
    by (simp add: t_def print_def s3 q del: upt_rec_numeral)
  show ?thesis
    unfolding F_def [symmetric] G_def [symmetric]
    by (intro exI [of _ t] conjI) (rule r1 r2 r3 r4)+
qed

lemma shifted_start_state_facts:
  "inodes shifted_start_state = owner_inodes"
  "inode_bitmap shifted_start_state = (\<lambda>_. 0)(0 := 1)"
  "data_bitmap shifted_start_state = (\<lambda>_. 0)(0 := of_bool True)"
  "superblock shifted_start_state = clean_superblock\<lparr>data_block_start := (if True then 10 else 8)\<rparr>"
  "image_readable shifted_start_state"
  "errors_found shifted_start_state = 0" "errors_fixed shifted_start_state = 0"
  "stdout shifted_start_state = []" "writes shifted_start_state = []"
  by (simp_all add: shifted_start_state_def clean_state_def image_readable_def list_all_iff)

lemma shifted_start_run:
  "\<exists>t. check_and_repair shifted_start_state = Some t \<and>
     stdout t = [Checking, Bad_data_block_start 10, Block_marked_not_referenced 10,
       Bad_direct 0 0 8, Summary False True False True False, Total_errors 3, Attempting_fix,
       Errors_fixed 2, Rechecking, Block_referenced_not_marked 8 0,
       Recheck_summary True True False True True, Original_errors 3, Remaining_errors 1,
       Manual_needed] \<and>
     inodes t = owner_inodes \<and> inode_bitmap t = (\<lambda>_. 0)(0 := 1) \<and>
     data_bitmap t = (\<lambda>_. 0) \<and> superblock t = clean_superblock \<and>
     fs_image t = fs_image shifted_start_state \<and>
     writes t = W_superblock 0 # W_inode_bitmap 4096 # W_data_bitmap 8192 #
       map (\<lambda>i. W_inode (12288 + 256 * i) i) [0..<80]"
proof -
  have "(\<lambda>_ :: nat. 0 :: u8)(0 := 0) = (\<lambda>_. 0)"
    by (simp add: fun_eq_iff)
  then show ?thesis
    using owner_program_run [OF shifted_start_state_facts]
    by (simp add: owner_findings_def del: upt_rec_numeral)
qed

lemma shifted_start_state_fresh:
  "shifted_start_state\<lparr>errors_found := 0, errors_fixed := 0, stdout := [], writes := []\<rparr> =
     shifted_start_state"
  by (simp add: shifted_start_state_def clean_state_def)

section \<open>Lemmas: duplicate claims before and after the repair\<close>

lemma claimants_append: "claimants (xs @ ys) b = claimants xs b @ claimants ys b"
  by (simp add: claimants_def)

lemma claimants_pairs:
  "claimants (map (Pair k) vs) b =
     replicate (length (filter (\<lambda>v. counted v \<and> unat v = b) vs)) (int k)"
  by (induction vs) (simp_all add: claimants_def)

lemma filter_repaired:
  assumes "list_all2 (entry_repaired 8) vs vs'"
  shows "length (filter (\<lambda>v. counted v \<and> unat v = b) vs') \<le>
           length (filter (\<lambda>v. counted v \<and> unat v = b) vs)"
    and "8 \<le> b \<Longrightarrow> b < 64 \<Longrightarrow>
           filter (\<lambda>v. counted v \<and> unat v = b) vs' = filter (\<lambda>v. counted v \<and> unat v = b) vs"
proof -
  show "length (filter (\<lambda>v. counted v \<and> unat v = b) vs') \<le>
           length (filter (\<lambda>v. counted v \<and> unat v = b) vs)"
    using assms
    by (induction rule: list_all2_induct) (auto simp add: entry_repaired_def counted_def)
  assume b: "8 \<le> b" "b < 64"
  have nb: "\<not> (counted v \<and> unat v = b)" if "bad_pointer 8 v" for v :: u32
    using that b by (auto simp add: bad_pointer_def word_less_nat_alt word_le_nat_alt)
  from assms
  show "filter (\<lambda>v. counted v \<and> unat v = b) vs' = filter (\<lambda>v. counted v \<and> unat v = b) vs"
  proof (induction rule: list_all2_induct)
    case Nil
    show ?case by simp
  next
    case (Cons v vs v' vs')
    from Cons.hyps(1) consider "v' = v" | "v' = 0" "bad_pointer 8 v"
      by (auto simp add: entry_repaired_def)
    then show ?case
    proof cases
      case 1
      then show ?thesis using Cons.IH by simp
    next
      case 2
      then show ?thesis using Cons.IH nb [of v] by (simp add: counted_def)
    qed
  qed
qed

lemma list_all2_map_same:
  "list_all2 P (map f xs) (map g xs) \<longleftrightarrow> (\<forall>x \<in> set xs. P (f x) (g x))"
  by (simp add: list_all2_map1 list_all2_map2 list_all2_same)

lemma counted_index: "counted v \<Longrightarrow> block_offset v div 4096 = unat v \<and> unat v < 64"
  by (simp add: counted_def block_index word_less_nat_alt)

lemma repaired_pointers:
  assumes rd: "image_readable s" and img: "image_repaired 8 (fs_image s) (fs_image t)"
    and ino: "inodes t k = repaired_inode 8 (inodes s k)"
  shows "\<exists>vs vs'. duplicate_pointers s k = Some vs \<and> duplicate_pointers t k = Some vs' \<and>
      (\<forall>b. length (filter (\<lambda>v. counted v \<and> unat v = b) vs') \<le>
            length (filter (\<lambda>v. counted v \<and> unat v = b) vs)) \<and>
      (\<not> low_indirect s k \<longrightarrow> (\<forall>b. 8 \<le> b \<longrightarrow> b < 64 \<longrightarrow>
         filter (\<lambda>v. counted v \<and> unat v = b) vs' = filter (\<lambda>v. counted v \<and> unat v = b) vs))"
proof (cases "0 < nlink (inodes s k) \<and> dtime (inodes s k) = 0")
  case False
  then have "duplicate_pointers s k = Some []" "duplicate_pointers t k = Some []"
    by (auto simp add: duplicate_pointers_def ino repaired_inode_def)
  then show ?thesis by simp
next
  case True
  define d where "d = direct_blocks (inodes s k)"
  define d' where "d' = direct_blocks (inodes t k)"
  define ind where "ind = indirect_block (inodes s k)"
  have t: "0 < nlink (inodes t k) \<and> dtime (inodes t k) = 0"
    "d' = (\<lambda>j. if j < 12 \<and> bad_pointer 8 (d j) then 0 else d j)"
    "indirect_block (inodes t k) = (if bad_pointer 8 ind then 0 else ind)"
    using True by (simp_all add: ino repaired_inode_def d_def d'_def ind_def cong: if_cong)
  have directs: "list_all2 (entry_repaired 8) (map d [0..<12]) (map d' [0..<12])"
    unfolding list_all2_map_same by (simp add: t entry_repaired_def)
  consider (none) "\<not> counted ind" | (low) "counted ind" "ind < 8" | (inside) "counted ind" "8 \<le> ind"
    by (cases "ind < 8") (auto simp add: not_less)
  then show ?thesis
  proof cases
    case none
    then have "\<not> counted (if bad_pointer 8 ind then 0 else ind)"
      by (simp add: counted_def)
    then have "duplicate_pointers s k = Some (map d [0..<12])"
      "duplicate_pointers t k = Some (map d' [0..<12])"
      using True t(1) none
      by (simp_all add: duplicate_pointers_def t(3) d_def [symmetric] d'_def [symmetric]
          ind_def [symmetric] del: upt_rec_numeral)
    then show ?thesis
      using filter_repaired [OF directs] by simp
  next
    case low
    then have bad: "bad_pointer 8 ind"
      by (simp add: bad_pointer_def counted_def)
    obtain en where en: "fs_image s (unat ind) = Some en"
      using image_readableD [OF rd] counted_index [OF low(1)] by blast
    have pre: "duplicate_pointers s k = Some (map d [0..<12] @ ind # map en [0..<1024])"
      using True low(1) en counted_index [OF low(1)]
      by (simp add: duplicate_pointers_def read_block_def d_def [symmetric] ind_def [symmetric]
          del: upt_rec_numeral)
    have post: "duplicate_pointers t k = Some (map d' [0..<12])"
      using t(1) bad
      by (simp add: duplicate_pointers_def t(3) counted_def d'_def [symmetric]
          del: upt_rec_numeral)
    have "low_indirect s k"
      using True low by (simp add: low_indirect_def ind_def counted_def)
    moreover have "length (filter (\<lambda>v. counted v \<and> unat v = b) (map d' [0..<12])) \<le>
        length (filter (\<lambda>v. counted v \<and> unat v = b) (map d [0..<12] @ ind # map en [0..<1024]))" for b
      using filter_repaired(1) [OF directs, of b] by (simp del: upt_rec_numeral)
    ultimately show ?thesis
      using pre post by simp
  next
    case inside
    then have ok: "\<not> bad_pointer 8 ind"
      by (auto simp add: bad_pointer_def counted_def)
    obtain en where en: "fs_image s (unat ind) = Some en"
      using image_readableD [OF rd] counted_index [OF inside(1)] by blast
    have "rel_option (\<lambda>blk blk'. \<forall>j. entry_repaired 8 (blk j) (blk' j))
        (fs_image s (unat ind)) (fs_image t (unat ind))"
      using img by (simp add: image_repaired_def)
    then obtain en' where en': "fs_image t (unat ind) = Some en'"
      and entries: "\<forall>j. entry_repaired 8 (en j) (en' j)"
      using en by (cases "fs_image t (unat ind)") simp_all
    have pre: "duplicate_pointers s k = Some (map d [0..<12] @ ind # map en [0..<1024])"
      using True inside(1) en counted_index [OF inside(1)]
      by (simp add: duplicate_pointers_def read_block_def d_def [symmetric] ind_def [symmetric]
          del: upt_rec_numeral)
    have post: "duplicate_pointers t k = Some (map d' [0..<12] @ ind # map en' [0..<1024])"
      using t(1) ok inside(1) en' counted_index [OF inside(1)]
      by (simp add: duplicate_pointers_def read_block_def t(3) d'_def [symmetric]
          del: upt_rec_numeral)
    have "list_all2 (entry_repaired 8) (map en [0..<1024]) (map en' [0..<1024])"
      unfolding list_all2_map_same using entries by simp
    then have "list_all2 (entry_repaired 8) (map d [0..<12] @ ind # map en [0..<1024])
        (map d' [0..<12] @ ind # map en' [0..<1024])"
      using directs by (intro list_all2_appendI list_all2_Cons [THEN iffD2] conjI)
        (simp_all add: entry_repaired_def)
    from filter_repaired [OF this] show ?thesis
      using pre post by simp
  qed
qed

lemma repaired_claims:
  assumes rd: "image_readable s" and img: "image_repaired 8 (fs_image s) (fs_image t)"
    and ino: "\<And>k. k \<in> set xs \<Longrightarrow> inodes t k = repaired_inode 8 (inodes s k)"
  shows "\<exists>cl cl'. duplicate_claims s xs = Some cl \<and> duplicate_claims t xs = Some cl' \<and>
     (\<forall>b. length (claimants cl' b) \<le> length (claimants cl b)) \<and>
     ((\<forall>k \<in> set xs. \<not> low_indirect s k) \<longrightarrow>
        (\<forall>b. 8 \<le> b \<longrightarrow> b < 64 \<longrightarrow> claimants cl' b = claimants cl b))"
  using ino
proof (induction xs)
  case Nil
  show ?case by simp
next
  case (Cons k xs)
  obtain vs vs' where p: "duplicate_pointers s k = Some vs" "duplicate_pointers t k = Some vs'"
    and fewer: "\<And>b. length (filter (\<lambda>v. counted v \<and> unat v = b) vs') \<le>
            length (filter (\<lambda>v. counted v \<and> unat v = b) vs)"
    and same: "\<And>b. \<not> low_indirect s k \<Longrightarrow> 8 \<le> b \<Longrightarrow> b < 64 \<Longrightarrow>
         filter (\<lambda>v. counted v \<and> unat v = b) vs' = filter (\<lambda>v. counted v \<and> unat v = b) vs"
    using repaired_pointers [OF rd img, of k] Cons.prems by auto
  obtain cl cl' where c: "duplicate_claims s xs = Some cl" "duplicate_claims t xs = Some cl'"
    and fewer': "\<And>b. length (claimants cl' b) \<le> length (claimants cl b)"
    and same': "\<And>b. \<forall>k \<in> set xs. \<not> low_indirect s k \<Longrightarrow> 8 \<le> b \<Longrightarrow> b < 64 \<Longrightarrow>
        claimants cl' b = claimants cl b"
    using Cons.IH Cons.prems by auto
  have "duplicate_claims s (k # xs) = Some (map (Pair k) vs @ cl)"
    "duplicate_claims t (k # xs) = Some (map (Pair k) vs' @ cl')"
    by (simp_all add: p c)
  moreover have "length (claimants (map (Pair k) vs' @ cl') b) \<le>
      length (claimants (map (Pair k) vs @ cl) b)" for b
    using fewer [of b] fewer' [of b] by (simp add: claimants_append claimants_pairs)
  moreover have "claimants (map (Pair k) vs' @ cl') b = claimants (map (Pair k) vs @ cl) b"
    if "\<forall>k \<in> set (k # xs). \<not> low_indirect s k" "8 \<le> b" "b < 64" for b
    using same [of b] same' [of b] that by (simp add: claimants_append claimants_pairs)
  ultimately show ?case by blast
qed

lemma direct_pointer_listed:
  assumes "duplicate_pointers s k = Some vs" and "0 < nlink (inodes s k) \<and> dtime (inodes s k) = 0"
    and "j < 12"
  shows "direct_blocks (inodes s k) j \<in> set vs"
proof -
  have "direct_blocks (inodes s k) j \<in> set (map (direct_blocks (inodes s k)) [0..<12])"
    using assms(3) unfolding set_map set_upt by simp
  then show ?thesis
    using assms(1,2)
    by (auto simp add: duplicate_pointers_def split: if_splits option.splits
        simp del: upt_rec_numeral set_map)
qed

lemma claimant_listed:
  assumes "duplicate_claims s xs = Some cl" and "k \<in> set xs"
    and "0 < nlink (inodes s k) \<and> dtime (inodes s k) = 0" and "j < 12"
    and "counted (direct_blocks (inodes s k) j)"
  shows "int k \<in> set (claimants cl (unat (direct_blocks (inodes s k) j)))"
  using assms(1,2)
proof (induction xs arbitrary: cl)
  case Nil
  then show ?case by simp
next
  case (Cons x xs)
  from Cons.prems(1) obtain vs cl' where vs: "duplicate_pointers s x = Some vs"
    and cl': "duplicate_claims s xs = Some cl'" and cl: "cl = map (Pair x) vs @ cl'"
    by (auto split: option.splits)
  show ?case
  proof (cases "k = x")
    case True
    then have "direct_blocks (inodes s k) j \<in> set vs"
      using direct_pointer_listed [OF _ assms(3,4)] vs by simp
    then have "filter (\<lambda>v. counted v \<and> unat v = unat (direct_blocks (inodes s k) j)) vs \<noteq> []"
      using assms(5) by (auto simp add: filter_empty_conv)
    then show ?thesis
      using True by (simp add: cl claimants_append claimants_pairs)
  next
    case False
    then have "k \<in> set xs" using Cons.prems(2) by simp
    from Cons.IH [OF cl' this] show ?thesis
      by (simp add: cl claimants_append)
  qed
qed

lemma two_members: "x \<in> set l \<Longrightarrow> y \<in> set l \<Longrightarrow> x \<noteq> y \<Longrightarrow> 1 < length l"
  by (cases l; cases "tl l") auto

lemma duplicate_finding_listed:
  "Block_multiply_referenced b l \<in> set (concat (map (duplicate_findings cl) region)) \<longleftrightarrow>
     b \<in> set region \<and> 1 < length (claimants cl b) \<and> l = claimants cl b"
  by (auto simp add: duplicate_findings_def)

lemma small_word_index:
  assumes "(v :: u32) \<le> B" and "B < 64"
  shows "0 \<le> sint v" and "nat (sint v) \<le> unat B"
proof -
  have "v < 64" using assms by (rule le_less_trans)
  then show "0 \<le> sint v"
    using small_word_sint [of v] by blast
  from \<open>v < 64\<close> have "uint v < 64" by (simp add: word_less_def)
  have "(- (2 ^ 31) :: int) \<le> 0" "(64 :: int) \<le> 2 ^ 31" by simp_all
  with \<open>uint v < 64\<close> have "- (2 ^ 31) \<le> uint v" "uint v < 2 ^ 31"
    using uint_ge_0 [of v] by linarith+
  then have "signed_take_bit 31 (uint v) = uint v"
    by (rule signed_take_bit_int_eq_self)
  then have "sint v = uint v" by (simp add: sint_uint)
  moreover have "uint v \<le> uint B"
    using assms(1) by (simp only: word_le_def)
  ultimately show "nat (sint v) \<le> unat B"
    by (simp only: unat_eq_nat_uint nat_mono)
qed

lemma duplicate_cycle:
  assumes rd: "image_readable s" and ij: "i < 80" "j < 80" "i \<noteq> j"
    and valid: "is_valid_inode s i" "is_valid_inode s j"
    and ptr: "direct_blocks (inodes s i) 0 = B" "direct_blocks (inodes s j) 0 = B"
    and range: "8 \<le> B" "B < 64"
    and pre: "check_duplicate_blocks s = Some (c, s1)"
    and d1: "same_disk s t" and fx: "fix_errors t = Some t2" and d2: "same_disk t2 u"
  shows "direct_blocks (inodes t2 i) 0 = B \<and> direct_blocks (inodes t2 j) 0 = B \<and>
     (\<exists>c' u3 cl'. check_duplicate_blocks u = Some (c', u3) \<and> \<not> c' \<and>
        Block_multiply_referenced (unat B) cl' \<in> set (drop (length (stdout u)) (stdout u3)) \<and>
        int i \<in> set cl' \<and> int j \<in> set cl' \<and>
        (data_block_start (superblock s) \<le> B \<and> no_low_indirect s \<longrightarrow>
           \<not> c \<and> Block_multiply_referenced (unat B) cl' \<in> set (drop (length (stdout s)) (stdout s1))))"
proof -
  have ds: "fs_image t = fs_image s" "inodes t = inodes s"
    using d1 by (simp_all add: same_disk_def)
  have "image_readable t"
    using rd by (simp add: same_disk_image_readable [OF d1])
  from fix_errors_effect [OF this] fx
  obtain img where t2: "superblock t2 = repaired_superblock (superblock t)"
    "inodes t2 = (\<lambda>k. if k < 80 then repaired_inode 8 (inodes t k) else inodes t k)"
    "fs_image t2 = img" and img: "image_repaired 8 (fs_image t) img"
    by auto
  have du: "superblock u = superblock t2" "inodes u = inodes t2" "fs_image u = fs_image t2"
    using d2 by (simp_all add: same_disk_def)
  have ok: "\<not> bad_pointer 8 B" "counted B"
    using range by (auto simp add: bad_pointer_def counted_def)
  have in_use: "0 < nlink (inodes s k) \<and> dtime (inodes s k) = 0" if "k = i \<or> k = j" for k
    using valid that by (auto simp add: is_valid_inode_def)
  have kept: "direct_blocks (inodes u k) 0 = B \<and> 0 < nlink (inodes u k) \<and> dtime (inodes u k) = 0"
    if "k = i \<or> k = j" for k
    using that in_use [of k] ij ptr ok(1) by (auto simp add: du t2 ds repaired_inode_def)
  have unchanged: "direct_blocks (inodes t2 i) 0 = B" "direct_blocks (inodes t2 j) 0 = B"
    using kept [of i] kept [of j] by (simp_all add: du)
  have "image_repaired 8 (fs_image s) (fs_image u)"
    using img by (simp add: du t2 ds)
  moreover have "inodes u k = repaired_inode 8 (inodes s k)" if "k \<in> set [0..<80]" for k
    using that unfolding set_upt by (simp add: du t2 ds)
  ultimately obtain cl cl' where cl: "duplicate_claims s [0..<80] = Some cl"
    and cl': "duplicate_claims u [0..<80] = Some cl'"
    and fewer: "\<And>b. length (claimants cl' b) \<le> length (claimants cl b)"
    and same: "\<And>b. \<forall>k \<in> set [0..<80]. \<not> low_indirect s k \<Longrightarrow> 8 \<le> b \<Longrightarrow> b < 64 \<Longrightarrow>
        claimants cl' b = claimants cl b"
    using repaired_claims [OF rd, of u "[0..<80]"] by blast
  from pre obtain region where few: "\<not> list_ex (\<lambda>b. 80 < length (claimants cl b)) [0..<64]"
    and region: "data_region s = Some region"
    and s1: "add_findings (concat (map (duplicate_findings cl) region)) (True, s) = (c, s1)"
    unfolding check_duplicate_blocks_eq cl by (auto split: if_splits option.splits)
  have "\<not> 80 < length (claimants cl' b)" for b
  proof -
    have "length (claimants cl b) \<le> 80"
      using few unfolding too_many_claimants by (simp add: not_less)
    with fewer [of b] show ?thesis by simp
  qed
  then have few': "\<not> list_ex (\<lambda>b. 80 < length (claimants cl' b)) [0..<64]"
    unfolding too_many_claimants by simp
  have region': "data_region u = Some [8..<64]"
    by (simp add: data_region_def du t2)
  define F' where "F' = concat (map (duplicate_findings cl') [8..<64])"
  have post: "check_duplicate_blocks u = Some (add_findings F' (True, u))"
    unfolding check_duplicate_blocks_eq cl' region' F'_def using few'
    by (simp del: upt_rec_numeral)
  have B: "8 \<le> unat B" "unat B < 64"
    using range by (simp_all add: word_le_nat_alt word_less_nat_alt)
  have member: "int k \<in> set (claimants cl' (unat B))" if "k = i \<or> k = j" for k
  proof -
    have "k \<in> set [0..<80]" using that ij by auto
    from claimant_listed [OF cl' this, of 0] kept [OF that] ok(2) show ?thesis by simp
  qed
  then have many: "1 < length (claimants cl' (unat B))"
    using ij(3) two_members [of "int i" _ "int j"] by simp
  then have listed: "Block_multiply_referenced (unat B) (claimants cl' (unat B)) \<in> set F'"
    unfolding F'_def duplicate_finding_listed set_upt using B by simp
  then have "F' \<noteq> []" by auto
  have before: "\<not> c \<and> Block_multiply_referenced (unat B) (claimants cl' (unat B)) \<in>
      set (drop (length (stdout s)) (stdout s1))"
    if start: "data_block_start (superblock s) \<le> B" and low: "no_low_indirect s"
  proof -
    have "data_region s = Some [nat (sint (data_block_start (superblock s)))..<64]"
      using small_word_index(1) [OF start range(2)] by (simp add: data_region_def)
    then have "unat B \<in> set region"
      using region small_word_index(2) [OF start range(2)] B(2) by auto
    moreover have "claimants cl' (unat B) = claimants cl (unat B)"
      using low B by (intro same) (simp_all add: no_low_indirect_def list_all_iff)
    ultimately have "Block_multiply_referenced (unat B) (claimants cl' (unat B)) \<in>
        set (concat (map (duplicate_findings cl) region))"
      unfolding duplicate_finding_listed using many by simp
    then show ?thesis
      using s1 by (auto simp add: add_findings_def)
  qed
  have "\<exists>c' u3 cl'. check_duplicate_blocks u = Some (c', u3) \<and> \<not> c' \<and>
        Block_multiply_referenced (unat B) cl' \<in> set (drop (length (stdout u)) (stdout u3)) \<and>
        int i \<in> set cl' \<and> int j \<in> set cl' \<and>
        (data_block_start (superblock s) \<le> B \<and> no_low_indirect s \<longrightarrow>
           \<not> c \<and> Block_multiply_referenced (unat B) cl' \<in> set (drop (length (stdout s)) (stdout s1)))"
    using post listed \<open>F' \<noteq> []\<close> member [of i] member [of j] before
    by (intro exI [of _ "fst (add_findings F' (True, u))"]
        exI [of _ "snd (add_findings F' (True, u))"] exI [of _ "claimants cl' (unat B)"])
       (simp add: add_findings_def)
  with unchanged show ?thesis by blast
qed

lemma shared_inodes_simps [simp]:
  "nlink (shared_inodes B k) = (if k = 0 \<or> k = 1 then 1 else 0)"
  "dtime (shared_inodes B k) = 0"
  "indirect_block (shared_inodes B k) = 0"
  "direct_blocks (shared_inodes B k) j = (if (k = 0 \<or> k = 1) \<and> j = 0 then B else 0)"
  by (simp_all add: shared_inodes_def free_inode_def)

lemma upt_80_2: "[0..<80] = 0 # 1 # [2..<80]"
  by (simp add: upt_rec)

lemma shared_claims:
  assumes "inodes s = shared_inodes B"
  shows "duplicate_claims s [0..<80] =
     Some (map (Pair 0) (map (\<lambda>j. if j = 0 then B else 0) [0..<12]) @
           map (Pair 1) (map (\<lambda>j. if j = 0 then B else 0) [0..<12]))"
proof -
  have "duplicate_claims s [2..<80] = Some []"
  proof (rule duplicate_claims_unused)
    fix i :: nat assume "i \<in> set [2..<80]"
    then have "2 \<le> i" unfolding set_upt by simp
    then show "\<not> (0 < nlink (inodes s i) \<and> dtime (inodes s i) = 0)"
      by (simp add: assms)
  qed
  moreover have "duplicate_pointers s 0 = Some (map (\<lambda>j. if j = 0 then B else 0) [0..<12])"
    "duplicate_pointers s 1 = Some (map (\<lambda>j. if j = 0 then B else 0) [0..<12])"
    by (simp_all add: duplicate_pointers_def assms counted_def)
  ultimately show ?thesis
    unfolding upt_80_2 by simp
qed

lemma shared_duplicates:
  assumes ino: "inodes s = shared_inodes B" and B: "counted B"
    and region: "data_region s = Some [st..<64]"
  shows "check_duplicate_blocks s =
     Some (add_findings
       (if st \<le> unat B then [Block_multiply_referenced (unat B) [0, 1]] else []) (True, s))"
proof -
  define cl where "cl = map (Pair (0 :: nat)) (map (\<lambda>j. if j = 0 then B else 0) [0..<12]) @
           map (Pair 1) (map (\<lambda>j :: nat. if j = 0 then B else 0) [0..<12])"
  have claims: "duplicate_claims s [0..<80] = Some cl"
    unfolding cl_def by (rule shared_claims [OF ino])
  have "filter (\<lambda>v. counted v \<and> unat v = b) (map (\<lambda>j :: nat. if j = 0 then B else 0) [0..<12]) =
      (if unat B = b then [B] else [])" for b
    unfolding upt_12 using B by (simp add: counted_def)
  then have cls: "claimants cl = (\<lambda>b. if b = unat B then [0, 1] else [])"
    unfolding fun_eq_iff cl_def claimants_append claimants_pairs by auto
  have few: "\<not> list_ex (\<lambda>b. 80 < length (claimants cl b)) [0..<64]"
    unfolding cls by (simp add: list_ex_iff)
  have "unat B < 64"
    using B by (simp add: counted_def word_less_nat_alt)
  moreover have "duplicate_findings cl =
      (\<lambda>b. if b = unat B then [Block_multiply_referenced (unat B) [0, 1]] else [])"
    by (simp add: duplicate_findings_def cls fun_eq_iff)
  ultimately have "concat (map (duplicate_findings cl) [st..<64]) =
      (if st \<le> unat B then [Block_multiply_referenced (unat B) [0, 1]] else [])"
    by (simp add: concat_single)
  then show ?thesis
    unfolding check_duplicate_blocks_eq claims region using few
    by (simp del: upt_rec_numeral)
qed

lemma repaired_inode_unchanged:
  assumes "\<not> bad_pointer start (indirect_block ino)"
    and "\<And>j. j < 12 \<Longrightarrow> \<not> bad_pointer start (direct_blocks ino j)"
  shows "repaired_inode start ino = ino"
  using assms by (intro inode_t.equality) (auto simp add: repaired_inode_def fun_eq_iff)

lemma shared_block_state_facts:
  "image_readable (shared_block_state start B)"
  "inodes (shared_block_state start B) = shared_inodes B"
  "is_valid_inode (shared_block_state start B) 0"
  "is_valid_inode (shared_block_state start B) 1"
  "direct_blocks (inodes (shared_block_state start B) 0) 0 = B"
  "direct_blocks (inodes (shared_block_state start B) 1) 0 = B"
  "no_low_indirect (shared_block_state start B)"
  "data_block_start (superblock (shared_block_state start B)) = start"
  "stdout (shared_block_state start B) = []"
  by (simp_all add: shared_block_state_def clean_state_def image_readable_def list_all_iff
      is_valid_inode_def no_low_indirect_def low_indirect_def)

lemma shared_block_repair:
  assumes "same_disk (shared_block_state start B) t" and "8 \<le> B" and "B < 64"
  shows "\<exists>t2. fix_errors t = Some t2 \<and> inodes t2 = shared_inodes B \<and>
     data_block_start (superblock t2) = 8 \<and> stdout t2 = stdout t"
proof -
  have t: "inodes t = shared_inodes B"
    using assms(1) by (simp add: same_disk_def shared_block_state_facts)
  have "image_readable t"
    using shared_block_state_facts(1) by (simp add: same_disk_image_readable [OF assms(1)])
  from fix_errors_effect [OF this]
  obtain t2 where t2: "fix_errors t = Some t2"
    "superblock t2 = repaired_superblock (superblock t)"
    "inodes t2 = (\<lambda>k. if k < 80 then repaired_inode 8 (inodes t k) else inodes t k)"
    "stdout t2 = stdout t"
    by auto
  have "\<not> bad_pointer 8 B" "\<not> bad_pointer 8 0"
    using assms(2,3) by (auto simp add: bad_pointer_def)
  then have "repaired_inode 8 (shared_inodes B k) = shared_inodes B k" for k
    by (intro repaired_inode_unchanged) simp_all
  then have "inodes t2 = shared_inodes B"
    by (simp add: t2 t fun_eq_iff)
  then show ?thesis
    using t2 by simp
qed

section \<open>Lemmas: the exit code\<close>

text \<open>
  The exit code of \<open>main\<close>: 1 after the usage line when the argument count is not one, 1
  after the open error when the image cannot be opened, and 0 at the end of every other run
  in which the validators and the repair return.
\<close>

lemma main_exit_code:
  "(length args \<noteq> 1 \<longrightarrow> main prog args fopen = Some (1, [Usage prog], [])) \<and>
   (length args = 1 \<and> fopen (hd args) = None \<longrightarrow>
      main prog args fopen = Some (1, [Open_error], [])) \<and>
   (\<forall>loaded. length args = 1 \<and> fopen (hd args) = Some loaded \<longrightarrow>
      main prog args fopen =
        map_option (\<lambda>s. (0, stdout s, writes s))
          (check_and_repair
            (loaded\<lparr>errors_found := 0, errors_fixed := 0, stdout := [], writes := []\<rparr>))) \<and>
   (\<forall>code out ws. main prog args fopen = Some (code, out, ws) \<longrightarrow>
      (code = 1 \<longleftrightarrow> length args \<noteq> 1 \<or> fopen (hd args) = None) \<and> (code = 0 \<or> code = 1))"
  by (auto simp add: main_def split: option.splits bind_splits)

text \<open>
  Three runs: no argument, an image that cannot be opened, and the image whose superblock
  gives 10 as the start of the data region, where the re-check still reports an error and
  the exit code is 0.
\<close>

lemma main_exit_code_examples:
  "main ''vsfsck'' [] (\<lambda>path. None) = Some (1, [Usage ''vsfsck''], []) \<and>
   main ''vsfsck'' [''fs.img''] (\<lambda>path. None) = Some (1, [Open_error], []) \<and>
   main ''vsfsck'' [''fs.img''] (\<lambda>path. Some shifted_start_state) =
     Some (0,
       [Checking, Bad_data_block_start 10, Block_marked_not_referenced 10,
        Bad_direct 0 0 8, Summary False True False True False, Total_errors 3, Attempting_fix,
        Errors_fixed 2, Rechecking, Block_referenced_not_marked 8 0,
        Recheck_summary True True False True True, Original_errors 3, Remaining_errors 1,
        Manual_needed],
       W_superblock 0 # W_inode_bitmap 4096 # W_data_bitmap 8192 #
         map (\<lambda>i. W_inode (12288 + 256 * i) i) [0..<80])"
proof -
  have 1: "main ''vsfsck'' [] (\<lambda>path. None) = Some (1, [Usage ''vsfsck''], [])"
    using main_exit_code [of "[]" "''vsfsck''" "\<lambda>path. None"]
    by simp
  have 2: "main ''vsfsck'' [''fs.img''] (\<lambda>path. None) = Some (1, [Open_error], [])"
    using main_exit_code
      [of "[''fs.img'']" "''vsfsck''" "\<lambda>path. None"]
    by simp
  have "main ''vsfsck'' [''fs.img''] (\<lambda>path. Some shifted_start_state) =
      map_option (\<lambda>s. (0, stdout s, writes s)) (check_and_repair shifted_start_state)"
    using main_exit_code
      [of "[''fs.img'']" "''vsfsck''" "\<lambda>path. Some shifted_start_state"]
    by (simp add: shifted_start_state_fresh)
  with shifted_start_run have 3: "main ''vsfsck'' [''fs.img''] (\<lambda>path. Some shifted_start_state) =
     Some (0,
       [Checking, Bad_data_block_start 10, Block_marked_not_referenced 10,
        Bad_direct 0 0 8, Summary False True False True False, Total_errors 3, Attempting_fix,
        Errors_fixed 2, Rechecking, Block_referenced_not_marked 8 0,
        Recheck_summary True True False True True, Original_errors 3, Remaining_errors 1,
        Manual_needed],
       W_superblock 0 # W_inode_bitmap 4096 # W_data_bitmap 8192 #
         map (\<lambda>i. W_inode (12288 + 256 * i) i) [0..<80])"
    by (auto simp del: upt_rec_numeral)
  from 1 2 3 show ?thesis by (intro conjI)
qed

section \<open>Lemmas: a run that does not return\<close>

lemma run_validators_wild:
  assumes tc: "tracker_claims s [0..<80] = Some cl"
    and wild: "list_ex (\<lambda>c. wild (data_block_start (superblock s)) (snd c)) cl"
  shows "run_validators s = None"
proof -
  define s1 where "s1 = snd (check_superblock s)"
  define s2 where "s2 = snd (check_inode_bitmap_consistency s1)"
  have "same_disk s s1"
    by (simp add: s1_def check_superblock_add)
  moreover have "same_disk s1 s2"
    by (simp add: s2_def check_inode_bitmap_add del: upt_rec_numeral)
  ultimately have d: "same_disk s s2"
    by (rule same_disk_trans)
  have "check_data_bitmap_consistency s2 = None"
    using wild
    by (simp add: check_data_bitmap_eq same_disk_tracker_claims [OF d] tc
        same_disk_fields(2) [OF d])
  then show ?thesis
    by (simp add: run_validators_def s1_def s2_def split_beta Let_def)
qed

lemma check_and_repair_undefined:
  "run_validators (print Checking (fold reset_reference [0..<64] s)) = None \<Longrightarrow>
     check_and_repair s = None"
  by (simp add: check_and_repair_def)

lemma wild_pointer_claims:
  "tracker_claims wild_pointer_state [0..<80] =
     Some (map (\<lambda>j. (0, if j = 0 then 0x80000000 else 0)) [0..<12])"
proof -
  have "tracker_claims wild_pointer_state [1..<80] = Some []"
    by (rule tracker_claims_unused)
       (simp add: wild_pointer_state_def clean_state_def free_inode_def)
  moreover have "tracker_pointers wild_pointer_state 0 =
      Some (map (\<lambda>j. if j = 0 then 0x80000000 else 0) [0..<12])"
    by (simp add: tracker_pointers_def wild_pointer_state_def clean_state_def free_inode_def)
  ultimately show ?thesis
    unfolding upt_80 by (simp add: comp_def)
qed

section \<open>Lemmas: a shared block below the start the superblock gives\<close>

text \<open>
  Where the superblock gives a start of the data region above the shared block, here 20
  with block 10, the duplicate-block validator, which starts at the superblock's value,
  reports nothing for the block before the repair; the repair sets the start to 8 and
  leaves both pointers, and the validator then reports block 10 with the claimants 0 and 1.
\<close>

lemma shared_block_below_start:
  "is_valid_inode (shared_block_state 20 10) 0 \<and> is_valid_inode (shared_block_state 20 10) 1 \<and>
   direct_blocks (inodes (shared_block_state 20 10) 0) 0 = 10 \<and>
   direct_blocks (inodes (shared_block_state 20 10) 1) 0 = 10 \<and>
   stdout (shared_block_state 20 10) = [] \<and>
   check_duplicate_blocks (shared_block_state 20 10) = Some (True, shared_block_state 20 10) \<and>
   (\<exists>t2 u3. fix_errors (shared_block_state 20 10) = Some t2 \<and>
      direct_blocks (inodes t2 0) 0 = 10 \<and> direct_blocks (inodes t2 1) 0 = 10 \<and>
      check_duplicate_blocks t2 = Some (False, u3) \<and>
      stdout u3 = [Block_multiply_referenced 10 [0, 1]])"
proof -
  define s where "s = shared_block_state 20 10"
  have "data_region s = Some [20..<64]"
    by (simp add: data_region_def s_def shared_block_state_facts)
  from shared_duplicates [OF _ _ this, of 10]
  have pre: "check_duplicate_blocks s = Some (True, s)"
    by (simp add: s_def shared_block_state_facts counted_def)
  obtain t2 where t2: "fix_errors s = Some t2" "inodes t2 = shared_inodes 10"
    "data_block_start (superblock t2) = 8" "stdout t2 = stdout s"
    using shared_block_repair [of 20 10 s] by (auto simp add: s_def)
  have "data_region t2 = Some [8..<64]"
    by (simp add: data_region_def t2)
  from shared_duplicates [OF t2(2) _ this]
  have "check_duplicate_blocks t2 =
      Some (False, snd (add_findings [Block_multiply_referenced 10 [0, 1]] (True, t2)))"
    by (simp add: counted_def add_findings_def)
  moreover have "stdout (snd (add_findings [Block_multiply_referenced 10 [0, 1]] (True, t2))) =
      [Block_multiply_referenced 10 [0, 1]]"
    by (simp add: add_findings_def t2 s_def shared_block_state_facts)
  ultimately have "\<exists>t2 u3. fix_errors s = Some t2 \<and>
      direct_blocks (inodes t2 0) 0 = 10 \<and> direct_blocks (inodes t2 1) 0 = 10 \<and>
      check_duplicate_blocks t2 = Some (False, u3) \<and>
      stdout u3 = [Block_multiply_referenced 10 [0, 1]]"
    using t2(1,2) by simp
  moreover have "is_valid_inode s 0" "is_valid_inode s 1"
    "direct_blocks (inodes s 0) 0 = 10" "direct_blocks (inodes s 1) 0 = 10" "stdout s = []"
    unfolding s_def by (rule shared_block_state_facts)+
  ultimately show ?thesis
    using pre unfolding s_def [symmetric] by blast
qed

section \<open>Lemmas: a claim through the inode table\<close>

lemma filter_single_entry:
  "filter (\<lambda>v. counted v \<and> unat v = b) (map (\<lambda>e. if e = k then x else 0) [0..<n]) =
     (if k < n \<and> counted x \<and> unat x = b then [x] else [])"
  by (induction n) (auto simp add: counted_def)

lemma upt_80_3: "[0..<80] = 0 # 1 # 2 # [3..<80]"
  by (simp add: upt_rec)

lemma three_inode_claims:
  assumes "duplicate_pointers s 0 = Some v0" and "duplicate_pointers s 1 = Some v1"
    and "duplicate_pointers s 2 = Some v2"
    and "\<And>i. 3 \<le> i \<Longrightarrow> \<not> (0 < nlink (inodes s i) \<and> dtime (inodes s i) = 0)"
  shows "duplicate_claims s [0..<80] = Some (map (Pair 0) v0 @ map (Pair 1) v1 @ map (Pair 2) v2)"
proof -
  have rest: "duplicate_claims s [3..<80] = Some []"
  proof (rule duplicate_claims_unused)
    fix i :: nat assume "i \<in> set [3..<80]"
    then have "3 \<le> i" unfolding set_upt by simp
    then show "\<not> (0 < nlink (inodes s i) \<and> dtime (inodes s i) = 0)"
      by (rule assms(4))
  qed
  show ?thesis
    unfolding upt_80_3
    by (simp only: duplicate_claims.simps assms(1,2,3) rest option.case option.map append_Nil2)
qed

lemma duplicate_report:
  assumes claims: "duplicate_claims s [0..<80] = Some cl"
    and cls: "claimants cl = (\<lambda>b. if b = 9 then l else if b = 7 then m else [])"
    and l: "1 < length l" "length l \<le> 80" "length m \<le> 1"
    and start: "data_block_start (superblock s) = 8"
  shows "check_duplicate_blocks s =
     Some (False, s\<lparr>stdout := stdout s @ [Block_multiply_referenced 9 l],
                      errors_found := errors_found s + 1\<rparr>)"
proof -
  have few: "\<not> list_ex (\<lambda>b. 80 < length (claimants cl b)) [0..<64]"
    unfolding cls using l by (simp add: list_ex_iff)
  have region: "data_region s = Some [8..<64]"
    by (simp add: data_region_def start)
  have "duplicate_findings cl = (\<lambda>b. if b = 9 then [Block_multiply_referenced 9 l] else [])"
    using l by (simp add: duplicate_findings_def cls fun_eq_iff)
  then have "concat (map (duplicate_findings cl) [8..<64]) = [Block_multiply_referenced 9 l]"
    by (simp only: concat_single) simp
  then show ?thesis
    unfolding check_duplicate_blocks_eq claims region using few
    by (simp add: add_findings_def del: upt_rec_numeral)
qed

lemma stale_claim_state_simps [simp]:
  "nlink (inodes stale_claim_state k) = (if k = 0 \<or> k = 1 \<or> k = 2 then 1 else 0)"
  "dtime (inodes stale_claim_state k) = 0"
  "indirect_block (inodes stale_claim_state k) = (if k = 2 then 7 else 0)"
  "direct_blocks (inodes stale_claim_state k) j =
     (if (k = 0 \<or> k = 1 \<or> k = 64) \<and> j = 0 then 9 else 0)"
  "fs_image stale_claim_state 7 = Some (\<lambda>e. if e = 10 then 9 else 0)"
  "data_block_start (superblock stale_claim_state) = 8"
  "stdout stale_claim_state = []"
  by (simp_all add: stale_claim_state_def clean_state_def clean_superblock_def free_inode_def)

lemma stale_claim_state_readable: "image_readable stale_claim_state"
  by (simp add: image_readable_def stale_claim_state_def clean_state_def list_all_iff)

lemma no_zero_claims: "filter (\<lambda>v. counted v \<and> unat v = b) (map (\<lambda>j. 0) xs) = []"
  by (induction xs) (simp_all add: counted_def)

lemma stale_claim_duplicates:
  "check_duplicate_blocks stale_claim_state =
     Some (False, stale_claim_state\<lparr>stdout := [Block_multiply_referenced 9 [0, 1, 2]],
                                      errors_found := errors_found stale_claim_state + 1\<rparr>)"
proof -
  define v0 :: "u32 list" where "v0 = map (\<lambda>j :: nat. if j = 0 then 9 else 0) [0..<12]"
  define v2 :: "u32 list" where
    "v2 = map (\<lambda>j :: nat. 0) [0..<12] @ 7 # map (\<lambda>e :: nat. if e = 10 then 9 else 0) [0..<1024]"
  have "block_offset 7 div 4096 = 7"
    using block_index [of 7] by simp
  then have p: "duplicate_pointers stale_claim_state 0 = Some v0"
    "duplicate_pointers stale_claim_state 1 = Some v0"
    "duplicate_pointers stale_claim_state 2 = Some v2"
    by (simp_all add: duplicate_pointers_def read_block_def counted_def v0_def v2_def
        del: upt_rec_numeral)
  have claims: "duplicate_claims stale_claim_state [0..<80] =
      Some (map (Pair 0) v0 @ map (Pair 1) v0 @ map (Pair 2) v2)"
    by (rule three_inode_claims [OF p]) simp
  have f0: "filter (\<lambda>v. counted v \<and> unat v = b) v0 = (if b = 9 then [9] else [])" for b
    unfolding v0_def filter_single_entry by (auto simp add: counted_def)
  have f2: "filter (\<lambda>v. counted v \<and> unat v = b) v2 =
      (if b = 7 then [7] else if b = 9 then [9] else [])" for b
    unfolding v2_def filter_append filter.simps no_zero_claims filter_single_entry
    by (auto simp add: counted_def)
  have cls: "claimants (map (Pair 0) v0 @ map (Pair 1) v0 @ map (Pair 2) v2) =
      (\<lambda>b. if b = 9 then [0, 1, 2] else if b = 7 then [2] else [])"
    unfolding fun_eq_iff claimants_append claimants_pairs f0 f2 by simp
  show ?thesis
    using duplicate_report [OF claims cls] by simp
qed

lemma stale_claim_bad_blocks:
  "check_bad_blocks stale_claim_state =
     Some (False, stale_claim_state\<lparr>stdout := [Bad_indirect 2 7],
                                      errors_found := errors_found stale_claim_state + 1\<rparr>)"
proof -
  have "direct_findings stale_claim_state i j = []" for i j
    by (simp add: direct_findings_def bad_pointer_def)
  then have "bad_block_findings stale_claim_state =
      (\<lambda>i. if i = 2 then [Bad_indirect 2 7] else [])"
    by (auto simp add: fun_eq_iff bad_block_findings_def indirect_findings_def bad_pointer_def
        concat_map_Nil simp del: upt_rec_numeral)
  then have "concat (map (bad_block_findings stale_claim_state) [0..<80]) = [Bad_indirect 2 7]"
    by (simp only: concat_single) simp
  then show ?thesis
    by (simp add: check_bad_blocks_add [OF stale_claim_state_readable] add_findings_def)
qed

lemma stale_claim_repair:
  assumes "same_disk stale_claim_state s"
  shows "\<exists>t2. fix_errors s = Some t2 \<and> stdout t2 = stdout s \<and>
     data_block_start (superblock t2) = 8 \<and>
     (\<forall>k. nlink (inodes t2 k) = nlink (inodes stale_claim_state k) \<and>
          dtime (inodes t2 k) = 0 \<and> indirect_block (inodes t2 k) = 0 \<and>
          direct_blocks (inodes t2 k) = direct_blocks (inodes stale_claim_state k))"
proof -
  have s: "inodes s = inodes stale_claim_state"
    using assms by (simp add: same_disk_def)
  have "image_readable s"
    using stale_claim_state_readable by (simp add: same_disk_image_readable [OF assms])
  from fix_errors_effect [OF this]
  obtain t2 where t2: "fix_errors s = Some t2"
    "superblock t2 = repaired_superblock (superblock s)"
    "inodes t2 = (\<lambda>k. if k < 80 then repaired_inode 8 (inodes s k) else inodes s k)"
    "stdout t2 = stdout s"
    by auto
  have "nlink (inodes t2 k) = nlink (inodes stale_claim_state k) \<and>
      dtime (inodes t2 k) = 0 \<and> indirect_block (inodes t2 k) = 0 \<and>
      direct_blocks (inodes t2 k) = direct_blocks (inodes stale_claim_state k)" for k
    by (auto simp add: t2(3) s repaired_inode_def bad_pointer_def fun_eq_iff)
  then show ?thesis
    using t2 by simp
qed

section \<open>The claims\<close>

text \<open>
  Claim C6. The superblock validator compares all nine geometry fields with the supported
  constants (magic 0xD34D, block size 4096, 64 blocks, inode bitmap in block 1, data bitmap
  in block 2, inode table from block 3, data region from block 8, inode size 256, 80
  inodes). It prints one finding for every field that differs, in field order, adds one to
  the error count for each of them, never stops at the first, and returns true only when
  there is none. An inode count of 0 gives no finding and no increment.
\<close>

theorem superblock_validator_reports_each_mismatch:
  "stdout (snd (check_superblock s)) = stdout s @ superblock_findings (superblock s) \<and>
   errors_found (snd (check_superblock s)) =
     errors_found s + int (length (superblock_findings (superblock s))) \<and>
   (fst (check_superblock s) \<longleftrightarrow> superblock_findings (superblock s) = []) \<and>
   int (length (superblock_findings (superblock s))) =
     of_bool (magic (superblock s) \<noteq> 0xD34D) + of_bool (block_size (superblock s) \<noteq> 4096) +
     of_bool (total_blocks (superblock s) \<noteq> 64) + of_bool (inode_bitmap_block (superblock s) \<noteq> 1) +
     of_bool (data_bitmap_block (superblock s) \<noteq> 2) + of_bool (inode_table_start (superblock s) \<noteq> 3) +
     of_bool (data_block_start (superblock s) \<noteq> 8) + of_bool (inode_size (superblock s) \<noteq> 256) +
     of_bool (inode_count (superblock s) \<noteq> 80 \<and> inode_count (superblock s) \<noteq> 0) \<and>
   (Bad_inode_count v \<in> set (superblock_findings (superblock s)) \<longleftrightarrow>
      v = inode_count (superblock s) \<and> v \<noteq> 80 \<and> v \<noteq> 0)"
proof -
  have "int (length (superblock_findings (superblock s))) =
     of_bool (magic (superblock s) \<noteq> 0xD34D) + of_bool (block_size (superblock s) \<noteq> 4096) +
     of_bool (total_blocks (superblock s) \<noteq> 64) + of_bool (inode_bitmap_block (superblock s) \<noteq> 1) +
     of_bool (data_bitmap_block (superblock s) \<noteq> 2) + of_bool (inode_table_start (superblock s) \<noteq> 3) +
     of_bool (data_block_start (superblock s) \<noteq> 8) + of_bool (inode_size (superblock s) \<noteq> 256) +
     of_bool (inode_count (superblock s) \<noteq> 80 \<and> inode_count (superblock s) \<noteq> 0)"
    unfolding superblock_findings_def
    by (simp only: length_append of_nat_add length_if_finding)
  moreover have "Bad_inode_count v \<in> set (superblock_findings (superblock s)) \<longleftrightarrow>
      v = inode_count (superblock s) \<and> v \<noteq> 80 \<and> v \<noteq> 0"
    unfolding superblock_findings_def set_append Un_iff in_set_if_finding
    by auto
  ultimately show ?thesis
    by (simp add: check_superblock_add)
qed

text \<open>An image whose magic number and inode count are both 0: one finding, for the magic number.\<close>

theorem superblock_validator_example:
  "stdout (snd (check_superblock
      (clean_state\<lparr>superblock := clean_superblock\<lparr>magic := 0, inode_count := 0\<rparr>\<rparr>))) = [Bad_magic 0] \<and>
   errors_found (snd (check_superblock
      (clean_state\<lparr>superblock := clean_superblock\<lparr>magic := 0, inode_count := 0\<rparr>\<rparr>))) = 1"
  using superblock_validator_reports_each_mismatch
    [of "clean_state\<lparr>superblock := clean_superblock\<lparr>magic := 0, inode_count := 0\<rparr>\<rparr>"]
  by (simp add: clean_state_def clean_superblock_def superblock_findings_def)

text \<open>
  Claim C7. For every inode slot the inode-bitmap validator takes validity from the inode
  record alone (link count positive and deletion time 0) and prints exactly one finding,
  adding one to the error count, when the slot's bit disagrees with it: "marked but not
  valid" when the bit is set and the inode is not valid, "valid but not marked" when the
  bit is clear and the inode is valid. A slot where both agree gives no finding.
\<close>

theorem inode_bitmap_validator_one_finding_per_disagreement:
  "stdout (snd (check_inode_bitmap_consistency s)) =
     stdout s @ concat (map (slot_findings s) [0..<80]) \<and>
   errors_found (snd (check_inode_bitmap_consistency s)) =
     errors_found s + int (length (filter (disagrees s) [0..<80])) \<and>
   (fst (check_inode_bitmap_consistency s) \<longleftrightarrow> filter (disagrees s) [0..<80] = []) \<and>
   (is_valid_inode s i \<longleftrightarrow> 0 < nlink (inodes s i) \<and> dtime (inodes s i) = 0) \<and>
   slot_findings s i =
     (if get_bit (inode_bitmap s) i \<noteq> 0 \<and> \<not> is_valid_inode s i then [Inode_marked_not_valid i]
      else if get_bit (inode_bitmap s) i = 0 \<and> is_valid_inode s i then [Inode_valid_not_marked i]
      else [])"
proof -
  have len: "length (concat (map (slot_findings s) [0..<80])) = length (filter (disagrees s) [0..<80])"
    by (rule length_findings_filter) (rule length_slot_findings)
  then have "concat (map (slot_findings s) [0..<80]) = [] \<longleftrightarrow> filter (disagrees s) [0..<80] = []"
    by (metis length_0_conv)
  moreover have "slot_findings s i =
     (if get_bit (inode_bitmap s) i \<noteq> 0 \<and> \<not> is_valid_inode s i then [Inode_marked_not_valid i]
      else if get_bit (inode_bitmap s) i = 0 \<and> is_valid_inode s i then [Inode_valid_not_marked i]
      else [])"
    by (auto simp add: slot_findings_def get_bit_eq is_valid_inode_def Let_def)
  ultimately show ?thesis
    using len by (simp add: check_inode_bitmap_add is_valid_inode_def)
qed

text \<open>
  Claim C5, amended. A run of the repair on an image with 64 readable blocks writes, in this
  order: the single-indirect blocks it changed (each at once, while the inodes are
  repaired, and at least one when some inode in use has an in-range indirect block with an
  out-of-range entry), then the superblock at offset 0, the inode bitmap at 4096, the data
  bitmap at 8192, and the 80 inode records from offset 12288 on. The indirect blocks are
  written first, not last.
\<close>

theorem repair_writes_indirect_blocks_first:
  assumes "image_readable s"
  shows "\<exists>s' ws. fix_errors s = Some s' \<and>
     writes s' = writes s @ ws @
       [W_superblock 0, W_inode_bitmap 4096, W_data_bitmap 8192] @
       map (\<lambda>i. W_inode (12288 + 256 * i) i) [0..<80] \<and>
     list_all is_indirect_write ws \<and>
     ((\<exists>i < 80. indirect_needs_repair 8 s i) \<longrightarrow> ws \<noteq> [])"
proof -
  obtain bmi bmd e img ws where
    "fix_errors s =
      Some (s\<lparr>superblock := repaired_superblock (superblock s),
              inode_bitmap := bmi, data_bitmap := bmd,
              inodes := (\<lambda>k. if k < 80 then repaired_inode 8 (inodes s k) else inodes s k),
              errors_fixed := e, fs_image := img,
              writes := writes s @ ws @
                W_superblock 0 # W_inode_bitmap 4096 # W_data_bitmap 8192 #
                map (\<lambda>i. W_inode (12288 + 256 * i) i) [0..<80]\<rparr>)"
    "list_all is_indirect_write ws"
    "(\<exists>i < 80. indirect_needs_repair 8 s i) \<longrightarrow> ws \<noteq> []"
    using fix_errors_effect [OF assms] by blast
  then show ?thesis
    by (intro exI [of _ "s\<lparr>superblock := repaired_superblock (superblock s),
              inode_bitmap := bmi, data_bitmap := bmd,
              inodes := (\<lambda>k. if k < 80 then repaired_inode 8 (inodes s k) else inodes s k),
              errors_fixed := e, fs_image := img,
              writes := writes s @ ws @
                W_superblock 0 # W_inode_bitmap 4096 # W_data_bitmap 8192 #
                map (\<lambda>i. W_inode (12288 + 256 * i) i) [0..<80]\<rparr>"] exI [of _ ws])
       (simp del: upt_rec_numeral)
qed

text \<open>The order of the writes on an image with one indirect block to repair.\<close>

theorem repair_write_order_example:
  "image_readable bad_entry_state \<and>
   (\<exists>s' ws. fix_errors bad_entry_state = Some s' \<and>
      writes s' = ws @ [W_superblock 0, W_inode_bitmap 4096, W_data_bitmap 8192] @
        map (\<lambda>i. W_inode (12288 + 256 * i) i) [0..<80] \<and>
      list_all is_indirect_write ws \<and> ws \<noteq> [])"
proof -
  have w: "writes bad_entry_state = []"
    by (simp add: bad_entry_state_def clean_state_def)
  have "\<exists>i < 80. indirect_needs_repair 8 bad_entry_state i"
    using bad_entry_state_needs_repair by (intro exI [of _ 0]) simp
  then show ?thesis
    using repair_writes_indirect_blocks_first [OF bad_entry_state_readable]
      bad_entry_state_readable unfolding w by auto
qed

text \<open>
  Claim C5 as stated fails: on that image the first write of the repair is an indirect
  block and the last one is the record of inode 79.
\<close>

theorem indirect_block_is_written_before_the_superblock:
  "\<exists>s'. fix_errors bad_entry_state = Some s' \<and>
     is_indirect_write (hd (writes s')) \<and> last (writes s') = W_inode 32512 79"
proof -
  have w: "writes bad_entry_state = []"
    by (simp add: bad_entry_state_def clean_state_def)
  have n: "\<exists>i < 80. indirect_needs_repair 8 bad_entry_state i"
    using bad_entry_state_needs_repair by (intro exI [of _ 0]) simp
  obtain s' ws where s': "fix_errors bad_entry_state = Some s'"
    and ws: "writes s' = ws @
                W_superblock 0 # W_inode_bitmap 4096 # W_data_bitmap 8192 #
                map (\<lambda>i. W_inode (12288 + 256 * i) i) [0..<80]"
      "list_all is_indirect_write ws" "ws \<noteq> []"
    using fix_errors_effect [OF bad_entry_state_readable] n unfolding w by force
  have "hd (writes s') = hd ws" using ws(1,3) by simp
  moreover have "is_indirect_write (hd ws)" using ws(2,3) by (cases ws) simp_all
  moreover have "last (writes s') = W_inode 32512 79"
    unfolding ws(1) by (simp add: last_map del: upt_rec_numeral)
  ultimately show ?thesis using s' by simp
qed

text \<open>
  Claim C1, amended. On an image with 64 readable blocks, let an inode in use have 64 as its
  first direct block. The bad-block validator reports that inode and slot 0 with the value
  64 and returns false. The repair that follows sets the slot to 0; validating again
  leaves the slot 0 and reports nothing for it. The repair does not change the bit of the
  data bitmap that the number 64 would have, bit 56 = 64 - 8: after the repair it has the
  value it had before, set or clear.
\<close>

theorem past_end_pointer_flagged_and_zeroed:
  assumes "image_readable s" and "i < 80" and "is_valid_inode s i"
    and "direct_blocks (inodes s i) 0 = 64"
  shows "\<exists>c s1 s2 c3 s3.
     check_bad_blocks s = Some (c, s1) \<and> \<not> c \<and>
     Bad_direct i 0 64 \<in> set (drop (length (stdout s)) (stdout s1)) \<and>
     fix_errors s1 = Some s2 \<and>
     direct_blocks (inodes s2 i) 0 = 0 \<and>
     get_bit (data_bitmap s2) 56 = get_bit (data_bitmap s) 56 \<and>
     check_bad_blocks s2 = Some (c3, s3) \<and>
     direct_blocks (inodes s3 i) 0 = 0 \<and>
     (\<forall>v. Bad_direct i 0 v \<notin> set (drop (length (stdout s2)) (stdout s3)))"
  using assms by (rule bad_direct_cycle)

text \<open>The same on the image whose inode 0 points to block 64.\<close>

theorem past_end_pointer_example:
  "image_readable past_end_state \<and> (0::nat) < 80 \<and> is_valid_inode past_end_state 0 \<and>
   direct_blocks (inodes past_end_state 0) 0 = 64 \<and>
   (\<exists>c s1 s2 c3 s3.
     check_bad_blocks past_end_state = Some (c, s1) \<and> \<not> c \<and>
     Bad_direct 0 0 64 \<in> set (drop (length (stdout past_end_state)) (stdout s1)) \<and>
     fix_errors s1 = Some s2 \<and>
     direct_blocks (inodes s2 0) 0 = 0 \<and>
     get_bit (data_bitmap s2) 56 = get_bit (data_bitmap past_end_state) 56 \<and>
     check_bad_blocks s2 = Some (c3, s3) \<and>
     direct_blocks (inodes s3 0) 0 = 0 \<and>
     (\<forall>v. Bad_direct 0 0 v \<notin> set (drop (length (stdout s2)) (stdout s3))))"
  using past_end_pointer_flagged_and_zeroed [of past_end_state 0] past_end_state_facts
  by simp

text \<open>
  Claim C1 as stated fails in its last part: on that image bit 56 of the data bitmap is
  set before the repair and is still set after it, although the pointer to block 64 is
  gone.
\<close>

theorem bitmap_bit_of_block_64_stays_set:
  "get_bit (data_bitmap past_end_state) 56 = 1 \<and>
   (\<exists>c s1 s2. check_bad_blocks past_end_state = Some (c, s1) \<and> fix_errors s1 = Some s2 \<and>
      direct_blocks (inodes s2 0) 0 = 0 \<and> get_bit (data_bitmap s2) 56 = 1)"
proof -
  obtain c s1 s2 where "check_bad_blocks past_end_state = Some (c, s1)"
    "fix_errors s1 = Some s2" "direct_blocks (inodes s2 0) 0 = 0"
    "get_bit (data_bitmap s2) 56 = get_bit (data_bitmap past_end_state) 56"
    using bad_direct_cycle [of past_end_state 0] past_end_state_facts by auto
  then show ?thesis using past_end_state_facts(4) by auto
qed

text \<open>
  Claim C4, amended. The duplicate-block validator walks every inode in use: its direct
  pointers and, when the single-indirect pointer is nonzero and below 64, that pointer and
  the entries of the block it names; every nonzero pointer below 64 is one recorded
  reference. The walk is defined when every indirect block it reads lies in the file, no
  block collects more than 80 references, and the region start is not negative as an
  \<open>int\<close>. It then reports exactly the blocks from the superblock's data-region start to 63
  that have more than one recorded reference, from several inodes or from one and the
  same inode, each with the inode of every reference in walk order, and counts one error
  for each such block.
\<close>

theorem duplicate_validator_reports_multiple_references:
  "check_duplicate_blocks s =
     (case duplicate_claims s [0..<80] of
        None \<Rightarrow> None
      | Some cl \<Rightarrow>
          if list_ex (\<lambda>b. 80 < length (claimants cl b)) [0..<64] then None
          else (case data_region s of
                  None \<Rightarrow> None
                | Some region \<Rightarrow>
                    Some (add_findings (concat (map (duplicate_findings cl) region)) (True, s))))"
  by (rule check_duplicate_blocks_eq)

text \<open>On the empty file system nothing is referenced and nothing is reported.\<close>

theorem duplicate_validator_clean_example:
  "check_duplicate_blocks clean_state = Some (True, clean_state)"
proof -
  have "duplicate_findings [] = (\<lambda>b. [])"
    by (simp add: fun_eq_iff duplicate_findings_def claimants_def)
  moreover have "duplicate_claims clean_state [0..<80] = Some []"
    by (rule duplicate_claims_unused) (rule clean_state_unused)
  ultimately show ?thesis
    unfolding duplicate_validator_reports_multiple_references [of clean_state]
      clean_state_region
    by (simp add: claimants_def concat_no_findings list_ex_iff del: upt_rec_numeral)
qed

text \<open>
  Claim C4 as stated fails: on an image where only inode 0 is in use and names block 9
  twice, block 9 is reported as referenced by multiple inodes, with the claimants 0 and 0,
  and counted as an error, although a single inode claims it.
\<close>

theorem block_claimed_twice_by_one_inode_is_reported:
  "(\<forall>i. is_valid_inode double_reference_state i \<longleftrightarrow> i = 0) \<and>
   (\<exists>c s'. check_duplicate_blocks double_reference_state = Some (c, s') \<and> \<not> c \<and>
      stdout s' = [Block_multiply_referenced 9 [0, 0]] \<and> errors_found s' = 1)"
proof -
  have "is_valid_inode double_reference_state i \<longleftrightarrow> i = 0" for i
    by (simp add: is_valid_inode_def double_reference_state_def clean_state_def free_inode_def)
  then show ?thesis by (auto simp add: double_reference_run)
qed

text \<open>
  Claim C10. When the inode count of the superblock is 0, the superblock validator prints
  no finding for that field and does not count it. The repair, whenever it runs on an
  image with 64 readable blocks, still sets the field to 80 and counts it as fixed: the
  counter of fixed errors grows by at least one more than the number of errors the
  superblock validator found. So the number printed as fixed can exceed the number printed
  as found: on the empty file system whose magic number and inode count are both 0, the
  run prints 1 error found and at least 2 errors fixed.
\<close>

theorem zero_inode_count_is_fixed_but_never_found:
  assumes "inode_count (superblock s) = 0" and "image_readable s"
  shows "(\<forall>v. Bad_inode_count v \<notin> set (drop (length (stdout s)) (stdout (snd (check_superblock s))))) \<and>
     (\<exists>s'. fix_errors s = Some s' \<and> inode_count (superblock s') = 80 \<and>
        errors_found (snd (check_superblock s)) - errors_found s + 1 \<le>
          errors_fixed s' - errors_fixed s) \<and>
     (\<exists>t e ms. check_and_repair zero_count_state = Some t \<and>
        stdout t = [Checking, Bad_magic 0, Summary False True True True True, Total_errors 1,
                    Attempting_fix, Errors_fixed e, Rechecking] @ ms \<and> 1 < e)"
proof (intro conjI)
  show "\<forall>v. Bad_inode_count v \<notin> set (drop (length (stdout s)) (stdout (snd (check_superblock s))))"
    using assms(1) by (simp add: check_superblock_add add_findings_def Bad_inode_count_in_findings)
next
  obtain bmi bmd e img ws where fx: "fix_errors s =
      Some (s\<lparr>superblock := repaired_superblock (superblock s),
              inode_bitmap := bmi, data_bitmap := bmd,
              inodes := (\<lambda>k. if k < 80 then repaired_inode 8 (inodes s k) else inodes s k),
              errors_fixed := e, fs_image := img,
              writes := writes s @ ws @
                W_superblock 0 # W_inode_bitmap 4096 # W_data_bitmap 8192 #
                map (\<lambda>i. W_inode (12288 + 256 * i) i) [0..<80]\<rparr>)"
    and e: "errors_fixed s + superblock_repairs (superblock s) \<le> e"
    using fix_errors_effect [OF assms(2)] by blast
  have "errors_found (snd (check_superblock s)) - errors_found s + 1 =
      superblock_repairs (superblock s)"
    using superblock_findings_zero_count [OF assms(1)]
    by (simp add: check_superblock_add add_findings_def)
  then show "\<exists>s'. fix_errors s = Some s' \<and> inode_count (superblock s') = 80 \<and>
        errors_found (snd (check_superblock s)) - errors_found s + 1 \<le>
          errors_fixed s' - errors_fixed s"
    using e by (simp add: fx)
next
  show "\<exists>t e ms. check_and_repair zero_count_state = Some t \<and>
        stdout t = [Checking, Bad_magic 0, Summary False True True True True, Total_errors 1,
                    Attempting_fix, Errors_fixed e, Rechecking] @ ms \<and> 1 < e"
    using zero_count_run by fastforce
qed

text \<open>The same on that image itself.\<close>

theorem zero_inode_count_example:
  "inode_count (superblock zero_count_state) = 0 \<and> image_readable zero_count_state \<and>
   (\<forall>v. Bad_inode_count v \<notin> set (drop (length (stdout zero_count_state))
      (stdout (snd (check_superblock zero_count_state))))) \<and>
   (\<exists>s'. fix_errors zero_count_state = Some s' \<and> inode_count (superblock s') = 80 \<and>
      errors_found (snd (check_superblock zero_count_state)) - errors_found zero_count_state + 1 \<le>
        errors_fixed s' - errors_fixed zero_count_state) \<and>
   (\<exists>t e ms. check_and_repair zero_count_state = Some t \<and>
      stdout t = [Checking, Bad_magic 0, Summary False True True True True, Total_errors 1,
                  Attempting_fix, Errors_fixed e, Rechecking] @ ms \<and> 1 < e)"
  using zero_inode_count_is_fixed_but_never_found [of zero_count_state] zero_count_state_facts
  by simp

text \<open>
  Claim C2 asks that after the repair the bit of every block from 8 to 63 is set exactly
  when an inode in use, its bad pointers zeroed, claims the block. \<open>fix_errors\<close> does not
  do that on the image whose superblock gives 10 as the start of the data region: after the
  validators and the repair, the start is 8, inode 0 is still in use and still names block
  8, now inside the data region, and the bit of block 8 in the data bitmap, set before, is
  cleared. The data bitmap was matched against the reference map the validation left,
  made while blocks below 10 were skipped.
\<close>

theorem repair_clears_bit_of_claimed_block:
  "\<exists>c s1 s2. run_validators shifted_start_state = Some (c, s1) \<and> fix_errors s1 = Some s2 \<and>
     inodes s2 = inodes shifted_start_state \<and> is_valid_inode s2 0 \<and>
     direct_blocks (inodes s2 0) 0 = 8 \<and> data_block_start (superblock s2) = 8 \<and>
     get_bit (data_bitmap shifted_start_state) 0 = 1 \<and> get_bit (data_bitmap s2) 0 = 0"
proof -
  obtain s1 where v: "run_validators shifted_start_state =
      Some ((\<not> True, True, (if True then \<not> True else True), True, \<not> True), s1)"
    and d: "same_disk shifted_start_state s1"
    and br: "\<forall>b<64. block_referenced s1 b \<longleftrightarrow> \<not> True \<and> b = 8"
    using owner_run [OF shifted_start_state_facts(1-5)] by blast
  have "inodes s1 = owner_inodes" "inode_bitmap s1 = (\<lambda>_. 0)(0 := 1)"
    "data_bitmap s1 = (\<lambda>_. 0)(0 := of_bool True)"
    "superblock s1 = clean_superblock\<lparr>data_block_start := (if True then 10 else 8)\<rparr>"
    by (simp_all only: same_disk_fields [OF d] shifted_start_state_facts)
  from owner_repair [OF this br] obtain s2 where "fix_errors s1 = Some s2"
    "inodes s2 = owner_inodes" "data_bitmap s2 = (\<lambda>_. 0)(0 := of_bool (\<not> True))"
    "superblock s2 = clean_superblock"
    by blast
  then show ?thesis
    using v
    by (intro exI [of _ "(False, True, False, True, False)"] exI [of _ s1] exI [of _ s2])
       (simp add: shifted_start_state_facts is_valid_inode_def get_bit_eq clean_superblock_def)
qed

text \<open>
  Claim C3 asks that a second cycle of validation and repair changes nothing. On the same
  image it does: the first run of the program ends with block 8 referenced by inode 0 and
  not marked; the second run, on the image the first one wrote, finds that error, sets
  the bit and writes the data bitmap again.
\<close>

theorem second_run_changes_the_image_again:
  "\<exists>t u. check_and_repair shifted_start_state = Some t \<and>
     check_and_repair (t\<lparr>errors_found := 0, errors_fixed := 0, stdout := [], writes := []\<rparr>) =
       Some u \<and>
     stdout u = [Checking, Block_referenced_not_marked 8 0, Summary True True False True True,
       Total_errors 1, Attempting_fix, Errors_fixed 1, Rechecking,
       Recheck_summary True True True True True, Original_errors 1, Remaining_errors 0,
       All_fixed] \<and>
     get_bit (data_bitmap t) 0 = 0 \<and> get_bit (data_bitmap u) 0 = 1 \<and>
     W_data_bitmap 8192 \<in> set (writes u)"
proof -
  obtain t where t: "check_and_repair shifted_start_state = Some t"
    "inodes t = owner_inodes" "inode_bitmap t = (\<lambda>_. 0)(0 := 1)"
    "data_bitmap t = (\<lambda>_. 0)" "superblock t = clean_superblock"
    "fs_image t = fs_image shifted_start_state"
    using shifted_start_run by blast
  define t' where "t' = t\<lparr>errors_found := 0, errors_fixed := 0, stdout := [], writes := []\<rparr>"
  have "(\<lambda>_ :: nat. 0 :: u8)(0 := 0) = (\<lambda>_. 0)"
    by (simp add: fun_eq_iff)
  then have "inodes t' = owner_inodes" "inode_bitmap t' = (\<lambda>_. 0)(0 := 1)"
    "data_bitmap t' = (\<lambda>_. 0)(0 := of_bool False)"
    "superblock t' = clean_superblock\<lparr>data_block_start := (if False then 10 else 8)\<rparr>"
    "image_readable t'"
    "errors_found t' = 0" "errors_fixed t' = 0" "stdout t' = []" "writes t' = []"
    using shifted_start_state_facts(5)
    by (simp_all add: t'_def t clean_superblock_def image_readable_def)
  from owner_program_run [OF this] obtain u where
    "check_and_repair t' = Some u"
    "stdout u = [Checking, Block_referenced_not_marked 8 0, Summary True True False True True,
       Total_errors 1, Attempting_fix, Errors_fixed 1, Rechecking,
       Recheck_summary True True True True True, Original_errors 1, Remaining_errors 0,
       All_fixed]"
    "data_bitmap u = (\<lambda>_. 0)(0 := 1)"
    "writes u = W_superblock 0 # W_inode_bitmap 4096 # W_data_bitmap 8192 #
       map (\<lambda>i. W_inode (12288 + 256 * i) i) [0..<80]"
    by (auto simp add: owner_findings_def simp del: upt_rec_numeral)
  then show ?thesis
    using t(1,4) unfolding t'_def
    by (intro exI [of _ t] exI [of _ u]) (simp add: get_bit_eq del: upt_rec_numeral)
qed

text \<open>
  Claim C8, amended. Let two different inodes in use name the same block \<open>B\<close>, from 8 to 63,
  as their first direct block, on an image with 64 readable blocks on which the
  duplicate-block validator returns. The repair, run on the structures the validators
  worked on, returns and leaves both pointers at \<open>B\<close>. The duplicate-block validator of the
  re-check then returns false and reports \<open>B\<close> with a list of claimants that contains both
  inodes. The validator before the repair reported \<open>B\<close> with the same list, provided that
  the data-region start in the superblock was at most \<open>B\<close> and no inode in use had a nonzero
  single-indirect pointer below 8.
\<close>

theorem shared_block_is_reported_again_after_repair:
  assumes "image_readable s" and "i < 80" and "j < 80" and "i \<noteq> j"
    and "is_valid_inode s i" and "is_valid_inode s j"
    and "direct_blocks (inodes s i) 0 = B" and "direct_blocks (inodes s j) 0 = B"
    and "8 \<le> B" and "B < 64"
    and "check_duplicate_blocks s = Some (c, s1)" and "same_disk s t"
  shows "\<exists>t2. fix_errors t = Some t2 \<and>
     direct_blocks (inodes t2 i) 0 = B \<and> direct_blocks (inodes t2 j) 0 = B \<and>
     (\<forall>u. same_disk t2 u \<longrightarrow>
        (\<exists>c' u3 cl'. check_duplicate_blocks u = Some (c', u3) \<and> \<not> c' \<and>
           Block_multiply_referenced (unat B) cl' \<in> set (drop (length (stdout u)) (stdout u3)) \<and>
           int i \<in> set cl' \<and> int j \<in> set cl' \<and>
           (data_block_start (superblock s) \<le> B \<and> no_low_indirect s \<longrightarrow>
              \<not> c \<and> Block_multiply_referenced (unat B) cl' \<in>
                set (drop (length (stdout s)) (stdout s1)))))"
proof -
  have "image_readable t"
    using assms(1) by (simp add: same_disk_image_readable [OF assms(12)])
  then obtain t2 where fx: "fix_errors t = Some t2"
    using fix_errors_effect [of t] by blast
  note cycle = duplicate_cycle [OF assms fx]
  show ?thesis
  proof (intro exI [of _ t2] conjI allI impI)
    show "fix_errors t = Some t2" by (rule fx)
    show "direct_blocks (inodes t2 i) 0 = B"
      by (rule cycle [OF same_disk_refl, THEN conjunct1])
    show "direct_blocks (inodes t2 j) 0 = B"
      by (rule cycle [OF same_disk_refl, THEN conjunct2, THEN conjunct1])
  next
    fix u assume "same_disk t2 u"
    then show "\<exists>c' u3 cl'. check_duplicate_blocks u = Some (c', u3) \<and> \<not> c' \<and>
           Block_multiply_referenced (unat B) cl' \<in> set (drop (length (stdout u)) (stdout u3)) \<and>
           int i \<in> set cl' \<and> int j \<in> set cl' \<and>
           (data_block_start (superblock s) \<le> B \<and> no_low_indirect s \<longrightarrow>
              \<not> c \<and> Block_multiply_referenced (unat B) cl' \<in>
                set (drop (length (stdout s)) (stdout s1)))"
      by (rule cycle [THEN conjunct2, THEN conjunct2])
  qed
qed

text \<open>
  The same on the image of the supported geometry whose inodes 0 and 1 both name block 9:
  block 9 is reported with the claimants 0 and 1 before the repair and after it.
\<close>

theorem shared_block_example:
  "image_readable (shared_block_state 8 9) \<and>
   is_valid_inode (shared_block_state 8 9) 0 \<and> is_valid_inode (shared_block_state 8 9) 1 \<and>
   direct_blocks (inodes (shared_block_state 8 9) 0) 0 = 9 \<and>
   direct_blocks (inodes (shared_block_state 8 9) 1) 0 = 9 \<and>
   data_block_start (superblock (shared_block_state 8 9)) = 8 \<and>
   no_low_indirect (shared_block_state 8 9) \<and>
   (\<exists>s1 t2 u3 cl'. check_duplicate_blocks (shared_block_state 8 9) = Some (False, s1) \<and>
      fix_errors s1 = Some t2 \<and>
      direct_blocks (inodes t2 0) 0 = 9 \<and> direct_blocks (inodes t2 1) 0 = 9 \<and>
      check_duplicate_blocks t2 = Some (False, u3) \<and>
      Block_multiply_referenced 9 cl' \<in> set (drop (length (stdout t2)) (stdout u3)) \<and>
      0 \<in> set cl' \<and> 1 \<in> set cl' \<and>
      Block_multiply_referenced 9 cl' \<in>
        set (drop (length (stdout (shared_block_state 8 9))) (stdout s1)))"
proof -
  define s where "s = shared_block_state 8 9"
  define s1 where "s1 = snd (add_findings [Block_multiply_referenced 9 [0, 1]] (True, s))"
  have facts: "image_readable s" "is_valid_inode s 0" "is_valid_inode s 1"
    "direct_blocks (inodes s 0) 0 = 9" "direct_blocks (inodes s 1) 0 = 9"
    "data_block_start (superblock s) = 8" "no_low_indirect s"
    unfolding s_def by (rule shared_block_state_facts)+
  have "data_region s = Some [8..<64]"
    by (simp add: data_region_def facts(6))
  from shared_duplicates [OF _ _ this, of 9]
  have pre: "check_duplicate_blocks s = Some (False, s1)"
    by (simp add: s_def shared_block_state_facts s1_def counted_def add_findings_def)
  have d: "same_disk s s1"
    by (simp add: s1_def)
  have "\<exists>t2. fix_errors s1 = Some t2 \<and>
     direct_blocks (inodes t2 0) 0 = 9 \<and> direct_blocks (inodes t2 1) 0 = 9 \<and>
     (\<forall>u. same_disk t2 u \<longrightarrow>
        (\<exists>c' u3 cl'. check_duplicate_blocks u = Some (c', u3) \<and> \<not> c' \<and>
           Block_multiply_referenced (unat (9 :: u32)) cl' \<in>
             set (drop (length (stdout u)) (stdout u3)) \<and>
           int 0 \<in> set cl' \<and> int 1 \<in> set cl' \<and>
           (data_block_start (superblock s) \<le> 9 \<and> no_low_indirect s \<longrightarrow>
              \<not> False \<and> Block_multiply_referenced (unat (9 :: u32)) cl' \<in>
                set (drop (length (stdout s)) (stdout s1)))))"
    using facts(1) _ _ _ facts(2,3,4,5) _ _ pre d
    by (rule shared_block_is_reported_again_after_repair) simp_all
  then obtain t2 where fx: "fix_errors s1 = Some t2"
    and kept: "direct_blocks (inodes t2 0) 0 = 9" "direct_blocks (inodes t2 1) 0 = 9"
    and recheck: "\<forall>u. same_disk t2 u \<longrightarrow>
        (\<exists>c' u3 cl'. check_duplicate_blocks u = Some (c', u3) \<and> \<not> c' \<and>
           Block_multiply_referenced (unat (9 :: u32)) cl' \<in>
             set (drop (length (stdout u)) (stdout u3)) \<and>
           int 0 \<in> set cl' \<and> int 1 \<in> set cl' \<and>
           (data_block_start (superblock s) \<le> 9 \<and> no_low_indirect s \<longrightarrow>
              \<not> False \<and> Block_multiply_referenced (unat (9 :: u32)) cl' \<in>
                set (drop (length (stdout s)) (stdout s1))))"
    by (elim exE conjE)
  from recheck [rule_format, OF same_disk_refl]
  obtain c' u3 cl' where post: "check_duplicate_blocks t2 = Some (c', u3)" "\<not> c'"
    "Block_multiply_referenced (unat (9 :: u32)) cl' \<in> set (drop (length (stdout t2)) (stdout u3))"
    "int 0 \<in> set cl'" "int 1 \<in> set cl'"
    and before: "data_block_start (superblock s) \<le> 9 \<and> no_low_indirect s \<longrightarrow>
      \<not> False \<and> Block_multiply_referenced (unat (9 :: u32)) cl' \<in>
        set (drop (length (stdout s)) (stdout s1))"
    by (elim exE conjE)
  have "Block_multiply_referenced (unat (9 :: u32)) cl' \<in> set (drop (length (stdout s)) (stdout s1))"
    using before facts(6,7) by simp
  then have "\<exists>s1 t2 u3 cl'. check_duplicate_blocks s = Some (False, s1) \<and>
      fix_errors s1 = Some t2 \<and>
      direct_blocks (inodes t2 0) 0 = 9 \<and> direct_blocks (inodes t2 1) 0 = 9 \<and>
      check_duplicate_blocks t2 = Some (False, u3) \<and>
      Block_multiply_referenced 9 cl' \<in> set (drop (length (stdout t2)) (stdout u3)) \<and>
      0 \<in> set cl' \<and> 1 \<in> set cl' \<and>
      Block_multiply_referenced 9 cl' \<in> set (drop (length (stdout s)) (stdout s1))"
    using pre fx kept post
    by (intro exI [of _ s1] exI [of _ t2] exI [of _ u3] exI [of _ cl']) simp
  then show ?thesis
    unfolding s_def [symmetric] using facts by (intro conjI)
qed

text \<open>
  Claim C8 as stated fails on that image. The pointers of inodes 0 and 1 to block 9 are in
  range and the bad-block validator reports only the indirect pointer of inode 2. Before
  the repair the duplicate-block validator reports block 9 with the claimants 0, 1 and 2,
  inode 2 through entry 10 of block 7. The repair leaves the pointers of inodes 0 and 1
  and zeroes the indirect pointer of inode 2, so that the validator of the re-check
  reports block 9 with the claimants 0 and 1: the finding is not the same.
\<close>

theorem shared_block_claimants_change_with_repair:
  "is_valid_inode stale_claim_state 0 \<and> is_valid_inode stale_claim_state 1 \<and>
   direct_blocks (inodes stale_claim_state 0) 0 = 9 \<and>
   direct_blocks (inodes stale_claim_state 1) 0 = 9 \<and>
   data_block_start (superblock stale_claim_state) = 8 \<and>
   (\<exists>b1. check_bad_blocks stale_claim_state = Some (False, b1) \<and>
      stdout b1 = [Bad_indirect 2 7]) \<and>
   (\<exists>s1 t2 u3. check_duplicate_blocks stale_claim_state = Some (False, s1) \<and>
      stdout s1 = [Block_multiply_referenced 9 [0, 1, 2]] \<and>
      fix_errors s1 = Some t2 \<and>
      direct_blocks (inodes t2 0) 0 = 9 \<and> direct_blocks (inodes t2 1) 0 = 9 \<and>
      check_duplicate_blocks t2 = Some (False, u3) \<and>
      drop (length (stdout t2)) (stdout u3) = [Block_multiply_referenced 9 [0, 1]])"
proof -
  define s1 where "s1 = stale_claim_state\<lparr>stdout := [Block_multiply_referenced 9 [0, 1, 2]],
      errors_found := errors_found stale_claim_state + 1\<rparr>"
  have pre: "check_duplicate_blocks stale_claim_state = Some (False, s1)"
    unfolding s1_def by (rule stale_claim_duplicates)
  have "same_disk stale_claim_state s1"
    by (simp add: s1_def same_disk_def)
  from stale_claim_repair [OF this]
  obtain t2 where fx: "fix_errors s1 = Some t2" and start: "data_block_start (superblock t2) = 8"
    and ino: "\<And>k. nlink (inodes t2 k) = nlink (inodes stale_claim_state k)"
      "\<And>k. dtime (inodes t2 k) = 0" "\<And>k. indirect_block (inodes t2 k) = 0"
      "\<And>k. direct_blocks (inodes t2 k) = direct_blocks (inodes stale_claim_state k)"
    by blast
  define v0 :: "u32 list" where "v0 = map (\<lambda>j :: nat. if j = 0 then 9 else 0) [0..<12]"
  define v2 :: "u32 list" where "v2 = map (\<lambda>j :: nat. 0) [0..<12]"
  have p: "duplicate_pointers t2 0 = Some v0" "duplicate_pointers t2 1 = Some v0"
    "duplicate_pointers t2 2 = Some v2"
    by (simp_all add: duplicate_pointers_def ino counted_def v0_def v2_def del: upt_rec_numeral)
  have claims: "duplicate_claims t2 [0..<80] =
      Some (map (Pair 0) v0 @ map (Pair 1) v0 @ map (Pair 2) v2)"
    by (rule three_inode_claims [OF p]) (simp add: ino)
  have f0: "filter (\<lambda>v. counted v \<and> unat v = b) v0 = (if b = 9 then [9] else [])" for b
    unfolding v0_def filter_single_entry by (auto simp add: counted_def)
  have cls: "claimants (map (Pair 0) v0 @ map (Pair 1) v0 @ map (Pair 2) v2) =
      (\<lambda>b. if b = 9 then [0, 1] else if b = 7 then [] else [])"
    unfolding fun_eq_iff claimants_append claimants_pairs f0 v2_def no_zero_claims by simp
  define u3 where "u3 = t2\<lparr>stdout := stdout t2 @ [Block_multiply_referenced 9 [0, 1]],
      errors_found := errors_found t2 + 1\<rparr>"
  have post: "check_duplicate_blocks t2 = Some (False, u3)"
    unfolding u3_def using duplicate_report [OF claims cls _ _ _ start] by simp
  have "\<exists>s1 t2 u3. check_duplicate_blocks stale_claim_state = Some (False, s1) \<and>
      stdout s1 = [Block_multiply_referenced 9 [0, 1, 2]] \<and>
      fix_errors s1 = Some t2 \<and>
      direct_blocks (inodes t2 0) 0 = 9 \<and> direct_blocks (inodes t2 1) 0 = 9 \<and>
      check_duplicate_blocks t2 = Some (False, u3) \<and>
      drop (length (stdout t2)) (stdout u3) = [Block_multiply_referenced 9 [0, 1]]"
    using pre fx post
    by (intro exI [of _ s1] exI [of _ t2] exI [of _ u3]) (simp add: s1_def u3_def ino)
  moreover have "\<exists>b1. check_bad_blocks stale_claim_state = Some (False, b1) \<and>
      stdout b1 = [Bad_indirect 2 7]"
    by (simp add: stale_claim_bad_blocks)
  ultimately show ?thesis
    by (simp add: is_valid_inode_def)
qed

text \<open>
  Claim C9 asks for exit code 0 in every run that gets past the argument count and the
  opening of the image. The run on the image above does not get to \<open>return 0\<close>: the
  data-bitmap validator passes the pointer to \<open>mark_block_referenced\<close>, where it is not
  below the data-region start as an unsigned number and is below 64 as an \<open>int\<close>, so that
  \<open>block_referenced\<close> is indexed with \<open>-2147483648\<close>. The image is complete, all of its 64
  blocks can be read, and the program was started with one argument and could open it.
\<close>

theorem negative_block_number_ends_the_run:
  "image_readable wild_pointer_state \<and>
   mark_block_referenced 0x80000000 0 wild_pointer_state = None \<and>
   main ''vsfsck'' [''fs.img''] (\<lambda>path. Some wild_pointer_state) = None"
proof -
  define s0 where "s0 = print Checking (fold reset_reference [0..<64]
      (wild_pointer_state\<lparr>errors_found := 0, errors_fixed := 0, stdout := [], writes := []\<rparr>))"
  have d: "same_disk wild_pointer_state s0"
    by (simp add: s0_def same_disk_def print_def fold_reset_reference)
  have sint: "sint (0x80000000 :: u32) < 0"
    by simp
  have start: "data_block_start (superblock s0) = 8"
    by (simp add: same_disk_fields(2) [OF d] wild_pointer_state_def clean_state_def
        clean_superblock_def)
  have "list_ex (\<lambda>c. wild (data_block_start (superblock s0)) (snd c))
      (map (\<lambda>j. (0 :: nat, if j = 0 then 0x80000000 else 0 :: u32)) [0..<12])"
    unfolding upt_12 start using sint by (simp add: wild_def)
  then have "run_validators s0 = None"
    by (rule run_validators_wild [rotated])
       (simp add: same_disk_tracker_claims [OF d] wild_pointer_claims)
  then have "check_and_repair
      (wild_pointer_state\<lparr>errors_found := 0, errors_fixed := 0, stdout := [], writes := []\<rparr>) = None"
    unfolding s0_def by (rule check_and_repair_undefined)
  then have "main ''vsfsck'' [''fs.img''] (\<lambda>path. Some wild_pointer_state) = None"
    by (simp add: main_def)
  moreover have "mark_block_referenced 0x80000000 0 wild_pointer_state = None"
    using sint
    by (simp add: mark_block_referenced_def wild_pointer_state_def clean_state_def
        clean_superblock_def)
  moreover have "image_readable wild_pointer_state"
    by (simp add: image_readable_def wild_pointer_state_def clean_state_def list_all_iff)
  ultimately show ?thesis by simp
qed

end
